theory Spec2Isabelle
  imports Complex_Main "HOL-Library.Multiset"
begin

section \<open>Data model\<close>

text \<open>
  The clustering engine of \<^verbatim>\<open>src/leafclusterer.js\<close> (constructors \<^verbatim>\<open>LeafClusterer\<close>,
  \<^verbatim>\<open>Cluster\<close>, class \<^verbatim>\<open>ClusterMarker_\<close>) and its near-duplicate in
  \<^verbatim>\<open>src/unnamed/part_000\<close> (\<^verbatim>\<open>L.Marker.Clusterer\<close>, \<^verbatim>\<open>L.Marker.Cluster\<close>,
  \<^verbatim>\<open>L.Marker.ClusterMarker\<close>).

  JavaScript numbers are modelled by exact rationals (pixel coordinates, grid size) and by
  integers (zoom levels, which the host map hands out as whole numbers); member counts are
  array lengths, hence naturals. Objects compared with \<^verbatim>\<open>===\<close> carry an identity: a marker
  has an identifier next to its position, a cluster is a reference into a store.

  An Isabelle name cannot end or begin with an underscore: the private members
  \<^verbatim>\<open>center_\<close>, \<^verbatim>\<open>markers_\<close>, \<^verbatim>\<open>clusters_\<close>, ... and the methods \<^verbatim>\<open>redraw_\<close>, ... are
  written without it; \<^verbatim>\<open>map_\<close> is \<open>hostMap\<close>; the fields of a badge carry the prefix
  \<open>cm\<close> and the fields of the argument of \<^verbatim>\<open>reset\<close> the prefix \<open>opt\<close>.
\<close>

record latlng =
  lat :: rat
  lng :: rat

record point =
  pt_x :: rat
  pt_y :: rat

datatype marker = Marker (marker_id: nat) (getLatLng: latlng)

text \<open>The object literal \<^verbatim>\<open>{'isAdded': ..., 'marker': ...}\<close> kept in a cluster.\<close>

record marker_ref =
  isAdded :: bool
  marker :: marker

text \<open>One entry of the \<^verbatim>\<open>styles\<close> option (\<^verbatim>\<open>MarkerStyleOptions\<close>).\<close>

record style =
  url :: string
  height :: nat
  width :: nat
  opt_textColor :: "string option"
  opt_anchor :: "(rat \<times> rat) option"

text \<open>A \<^verbatim>\<open>LatLngBounds\<close> object of the host, with the three methods the engine calls.\<close>

record bounds =
  getSouthWest :: latlng
  getNorthEast :: latlng
  contains :: "latlng \<Rightarrow> bool"

type_synonym cid = nat

text \<open>What the host map holds as overlays: markers, and the badge of a cluster.\<close>

datatype layer = MarkerLayer marker | BadgeLayer cid

text \<open>
  The host map collaborator: the four queries the engine makes, and the overlays attached
  to it (\<^verbatim>\<open>addLayer\<close>, \<^verbatim>\<open>removeLayer\<close>).
\<close>

record host_map =
  getZoom :: int
  getMaxZoom :: int
  getBounds :: bounds
  latLngToLayerPoint :: "latlng \<Rightarrow> point"
  layers :: "layer set"

definition addLayer :: "layer \<Rightarrow> host_map \<Rightarrow> host_map" where
  "addLayer l m = m\<lparr>layers := insert l (layers m)\<rparr>"

definition removeLayer :: "layer \<Rightarrow> host_map \<Rightarrow> host_map" where
  "removeLayer l m = m\<lparr>layers := layers m - {l}\<rparr>"

text \<open>
  The badge object \<^verbatim>\<open>ClusterMarker_\<close>. Its fields are \<^verbatim>\<open>undefined\<close> until \<^verbatim>\<open>reset\<close>
  assigns them. \<open>cm_style\<close> stands for the five fields \<^verbatim>\<open>url_\<close>, \<^verbatim>\<open>height_\<close>, \<^verbatim>\<open>width_\<close>,
  \<^verbatim>\<open>textColor_\<close>, \<^verbatim>\<open>anchor_\<close>, all copied from the one entry \<^verbatim>\<open>styles[index - 1]\<close>;
  \<open>hidden\<close> is \<^verbatim>\<open>div_.style.display === "none"\<close>.
\<close>

record cluster_marker =
  cm_latlng :: "latlng option"
  cm_count :: "nat option"
  cm_styles :: "style list option"
  cm_style :: "style option"
  cm_index :: "nat option"
  cm_padding :: "rat option"
  hidden :: bool

text \<open>The private members of a \<^verbatim>\<open>Cluster\<close>.\<close>

record cluster =
  center :: "latlng option"
  markers :: "marker_ref list"
  clusterMarker :: "cluster_marker option"
  zoom :: int

text \<open>
  The private members of a \<^verbatim>\<open>LeafClusterer\<close>. \<open>clusters\<close> is an array of references;
  \<open>heap\<close> is the store of the \<^verbatim>\<open>Cluster\<close> objects and \<open>next_cid\<close> the next free reference.
\<close>

record clusterer =
  clusters :: "cid list"
  leftMarkers :: "marker list"
  gridSize :: rat
  maxZoom :: "int option"
  styles :: "style list"
  hostMap :: host_map
  heap :: "cid \<Rightarrow> cluster"
  next_cid :: cid

text \<open>
  An uncaught exception leaves the objects as they were when it was raised:
  \<open>Thrown e s\<close> is a call that raised \<open>e\<close> and left the state \<open>s\<close> behind,
  \<open>Returned r s\<close> a call that returned \<open>r\<close>.
\<close>

datatype error = TypeError

datatype ('r, 's) outcome = Returned 'r 's | Thrown error 's

fun state_of :: "('r, 's) outcome \<Rightarrow> 's" where
  "state_of (Returned r s) = s"
| "state_of (Thrown e s) = s"

fun returned :: "('r, 's) outcome \<Rightarrow> bool" where
  "returned (Returned r s) = True"
| "returned (Thrown e s) = False"

section \<open>ClusterMarker_\<close>

text \<open>
  The digit loop of \<^verbatim>\<open>reset\<close>:
  \<^verbatim>\<open>while (dv !== 0) { dv = parseInt(dv / 10, 10); index ++; }\<close>
  On a member count \<^verbatim>\<open>parseInt(dv / 10, 10)\<close> is the integer quotient.
\<close>

function digits_loop :: "nat \<Rightarrow> nat \<Rightarrow> nat" where
  "digits_loop dv index = (if dv \<noteq> 0 then digits_loop (dv div 10) (index + 1) else index)"
  by pat_completeness auto
termination
  by (relation "measure fst") auto

declare digits_loop.simps [simp del]

text \<open>
  The argument of \<^verbatim>\<open>reset\<close>. Both call sites pass \<^verbatim>\<open>count\<close>; \<^verbatim>\<open>initialize\<close> passes
  the other three as well. A \<^verbatim>\<open>latLng\<close> of \<^verbatim>\<open>null\<close> is \<open>None\<close>: on the fresh badge of
  \<^verbatim>\<open>initialize\<close>, the only place that passes it, \<^verbatim>\<open>null != undefined\<close> is false and nothing
  is assigned.
\<close>

record reset_opts =
  opt_latLng :: "latlng option"
  opt_count :: nat
  opt_styles :: "style list option"
  opt_padding :: "rat option"

definition reset_padding :: "reset_opts \<Rightarrow> cluster_marker \<Rightarrow> cluster_marker" where
  "reset_padding opts this =
     (case opt_padding opts of
        None \<Rightarrow> this
      | Some p \<Rightarrow> if cm_padding this \<noteq> Some p then this\<lparr>cm_padding := Some p\<rparr> else this)"

text \<open>
  \<^verbatim>\<open>reset\<close>. Reading \<^verbatim>\<open>styles.length\<close> of an undefined \<^verbatim>\<open>styles_\<close>, or a field of the
  undefined \<^verbatim>\<open>styles[index - 1]\<close>, raises TypeError, after \<^verbatim>\<open>count_\<close> was assigned.
\<close>

definition ClusterMarker_reset ::
    "reset_opts \<Rightarrow> cluster_marker \<Rightarrow> (unit, cluster_marker) outcome" where
  "ClusterMarker_reset opts this =
     (let this1 = (case opt_latLng opts of
                     None \<Rightarrow> this
                   | Some l \<Rightarrow> if cm_latlng this \<noteq> Some l then this\<lparr>cm_latlng := Some l\<rparr> else this);
          styles_updated = (case opt_styles opts of
                              None \<Rightarrow> False
                            | Some sts \<Rightarrow> cm_styles this1 \<noteq> Some sts);
          this2 = (if styles_updated then this1\<lparr>cm_styles := opt_styles opts\<rparr> else this1)
      in if cm_count this2 \<noteq> Some (opt_count opts) \<or> styles_updated then
           (let this3 = this2\<lparr>cm_count := Some (opt_count opts)\<rparr>;
                index = digits_loop (opt_count opts) 0
            in case cm_styles this3 of
                 None \<Rightarrow> Thrown TypeError this3
               | Some sts \<Rightarrow>
                   (let index = (if length sts < index then length sts else index)
                    in if 1 \<le> index \<and> index - 1 < length sts then
                         Returned () (reset_padding opts
                           (this3\<lparr>cm_style := Some (sts ! (index - 1)), cm_index := Some index\<rparr>))
                       else Thrown TypeError this3))
         else Returned () (reset_padding opts this2))"

text \<open>A badge object before \<^verbatim>\<open>initialize\<close> has run: every field undefined.\<close>

definition ClusterMarker_blank :: cluster_marker where
  "ClusterMarker_blank =
     \<lparr>cm_latlng = None, cm_count = None, cm_styles = None, cm_style = None, cm_index = None,
      cm_padding = None, hidden = False\<rparr>"

text \<open>\<^verbatim>\<open>initialize: function(latLng_, count_, styles_, padding_)\<close>, with the arguments
  \<open>latLng\<close>, \<open>n\<close>, \<open>sts\<close> and \<open>p\<close>.\<close>

definition ClusterMarker_initialize ::
    "latlng option \<Rightarrow> nat \<Rightarrow> style list \<Rightarrow> rat \<Rightarrow> (unit, cluster_marker) outcome" where
  "ClusterMarker_initialize latLng n sts p =
     ClusterMarker_reset
       \<lparr>opt_latLng = latLng, opt_count = n, opt_styles = Some sts, opt_padding = Some p\<rparr>
       ClusterMarker_blank"

definition ClusterMarker_hide :: "cluster_marker \<Rightarrow> cluster_marker" where
  "ClusterMarker_hide this = this\<lparr>hidden := True\<rparr>"

definition ClusterMarker_show :: "cluster_marker \<Rightarrow> cluster_marker" where
  "ClusterMarker_show this = this\<lparr>hidden := False\<rparr>"

definition ClusterMarker_isHidden :: "cluster_marker \<Rightarrow> bool" where
  "ClusterMarker_isHidden this = hidden this"

section \<open>Cluster\<close>

definition upd_cluster :: "cid \<Rightarrow> (cluster \<Rightarrow> cluster) \<Rightarrow> clusterer \<Rightarrow> clusterer" where
  "upd_cluster this f s = s\<lparr>heap := (heap s)(this := f (heap s this))\<rparr>"

definition upd_map :: "(host_map \<Rightarrow> host_map) \<Rightarrow> clusterer \<Rightarrow> clusterer" where
  "upd_map f s = s\<lparr>hostMap := f (hostMap s)\<rparr>"

text \<open>\<^verbatim>\<open>function Cluster(leafClusterer)\<close>: the members of a new cluster.\<close>

definition Cluster_new :: "host_map \<Rightarrow> cluster" where
  "Cluster_new m = \<lparr>center = None, markers = [], clusterMarker = None, zoom = getZoom m\<rparr>"

definition Cluster_getMarkers :: "cid \<Rightarrow> clusterer \<Rightarrow> marker_ref list" where
  "Cluster_getMarkers this s = markers (heap s this)"

definition Cluster_getCenter :: "cid \<Rightarrow> clusterer \<Rightarrow> latlng option" where
  "Cluster_getCenter this s = center (heap s this)"

definition Cluster_getCurrentZoom :: "cid \<Rightarrow> clusterer \<Rightarrow> int" where
  "Cluster_getCurrentZoom this s = zoom (heap s this)"

definition Cluster_getTotalMarkers :: "cid \<Rightarrow> clusterer \<Rightarrow> nat" where
  "Cluster_getTotalMarkers this s = length (markers (heap s this))"

text \<open>\<^verbatim>\<open>Math.pow(2, dl)\<close> on a whole number \<open>dl\<close>.\<close>

definition Math_pow2 :: "int \<Rightarrow> rat" where
  "Math_pow2 dl = (if 0 \<le> dl then 2 ^ nat dl else 1 / 2 ^ nat (- dl))"

text \<open>\<^verbatim>\<open>this.isInBounds = function (bounds)\<close>; an absent argument is \<open>None\<close>.\<close>

definition Cluster_isInBounds :: "cid \<Rightarrow> bounds option \<Rightarrow> clusterer \<Rightarrow> bool" where
  "Cluster_isInBounds this bounds s =
     (case center (heap s this) of
        None \<Rightarrow> False
      | Some c \<Rightarrow>
          (let bounds = (case bounds of None \<Rightarrow> getBounds (hostMap s) | Some b \<Rightarrow> b);
               sw = latLngToLayerPoint (hostMap s) (getSouthWest bounds);
               ne = latLngToLayerPoint (hostMap s) (getNorthEast bounds);
               centerxy = latLngToLayerPoint (hostMap s) c;
               g = gridSize s;
               g = (if zoom (heap s this) \<noteq> getZoom (hostMap s)
                    then Math_pow2 (getZoom (hostMap s) - zoom (heap s this)) * g
                    else g);
               inViewport = \<not> (pt_x ne \<noteq> pt_x sw \<and>
                                 (pt_x centerxy + g < pt_x sw \<or> pt_x centerxy - g > pt_x ne));
               inViewport = (if inViewport \<and> (pt_y centerxy + g < pt_y ne \<or>
                                               pt_y centerxy - g > pt_y sw)
                             then False else inViewport)
           in inViewport))"

text \<open>\<^verbatim>\<open>this.addMarker = function (marker)\<close> of a cluster.\<close>

definition Cluster_addMarker :: "cid \<Rightarrow> marker_ref \<Rightarrow> clusterer \<Rightarrow> clusterer" where
  "Cluster_addMarker this ref s =
     upd_cluster this
       (\<lambda>c. c\<lparr>center := (case center c of
                            None \<Rightarrow> Some (getLatLng (marker ref))
                          | Some l \<Rightarrow> Some l),
              markers := markers c @ [ref]\<rparr>) s"

text \<open>
  The scan of \<^verbatim>\<open>Cluster.removeMarker\<close>: the first entry holding the marker, and the array
  with that entry spliced out.
\<close>

fun removeMarker_scan :: "marker \<Rightarrow> marker_ref list \<Rightarrow> (marker_ref \<times> marker_ref list) option" where
  "removeMarker_scan m [] = None"
| "removeMarker_scan m (r # rs) =
     (if m = marker r then Some (r, rs)
      else (case removeMarker_scan m rs of
              None \<Rightarrow> None
            | Some (r', rs') \<Rightarrow> Some (r', r # rs')))"

definition Cluster_removeMarker :: "cid \<Rightarrow> marker \<Rightarrow> clusterer \<Rightarrow> bool \<times> clusterer" where
  "Cluster_removeMarker this m s =
     (case removeMarker_scan m (markers (heap s this)) of
        None \<Rightarrow> (False, s)
      | Some (r, rest) \<Rightarrow>
          (let s1 = (if isAdded r then upd_map (removeLayer (MarkerLayer (marker r))) s else s)
           in (True, upd_cluster this (\<lambda>c. c\<lparr>markers := rest\<rparr>) s1)))"

text \<open>The loop \<^verbatim>\<open>if (markers_[i].isAdded) map_.removeLayer(markers_[i].marker)\<close>.\<close>

fun removeAdded :: "marker_ref list \<Rightarrow> host_map \<Rightarrow> host_map" where
  "removeAdded [] m = m"
| "removeAdded (r # rs) m =
     removeAdded rs (if isAdded r then removeLayer (MarkerLayer (marker r)) m else m)"

text \<open>The loop \<^verbatim>\<open>map_.addLayer(markers_[i].marker); markers_[i].isAdded = true\<close>.\<close>

fun addAll :: "marker_ref list \<Rightarrow> host_map \<Rightarrow> host_map" where
  "addAll [] m = m"
| "addAll (r # rs) m = addAll rs (addLayer (MarkerLayer (marker r)) m)"

definition Cluster_clearMarkers :: "cid \<Rightarrow> clusterer \<Rightarrow> clusterer" where
  "Cluster_clearMarkers this s =
     (let s1 = (case clusterMarker (heap s this) of
                  None \<Rightarrow> s
                | Some b \<Rightarrow> upd_map (removeLayer (BadgeLayer this)) s);
          s2 = upd_map (removeAdded (markers (heap s1 this))) s1
      in upd_cluster this (\<lambda>c. c\<lparr>markers := []\<rparr>) s2)"

text \<open>
  \<^verbatim>\<open>this.redraw_ = function (isForce)\<close>. Creating the badge raises when
  \<^verbatim>\<open>ClusterMarker_.initialize\<close> does, and then \<^verbatim>\<open>clusterMarker_\<close> stays \<^verbatim>\<open>null\<close>.
  \<^verbatim>\<open>map_.addLayer\<close> of the new badge runs its \<^verbatim>\<open>onAdd\<close>, which lays it out visible.
\<close>

definition Cluster_redraw :: "cid \<Rightarrow> bool \<Rightarrow> clusterer \<Rightarrow> (unit, clusterer) outcome" where
  "Cluster_redraw this isForce s =
     (if \<not> isForce \<and> \<not> Cluster_isInBounds this None s then Returned () s
      else
        (let s1 = upd_cluster this (\<lambda>c. c\<lparr>zoom := getZoom (hostMap s)\<rparr>) s;
             mz = (case maxZoom s1 of None \<Rightarrow> getMaxZoom (hostMap s1) | Some z \<Rightarrow> z)
         in if zoom (heap s1 this) \<ge> mz \<or> Cluster_getTotalMarkers this s1 = 1 then
              (let s2 = upd_map (addAll (markers (heap s1 this))) s1;
                   s3 = upd_cluster this
                          (\<lambda>c. c\<lparr>markers := map (\<lambda>r. r\<lparr>isAdded := True\<rparr>) (markers c)\<rparr>) s2
               in Returned ()
                    (upd_cluster this
                       (\<lambda>c. c\<lparr>clusterMarker := map_option ClusterMarker_hide (clusterMarker c)\<rparr>)
                       s3))
            else
              (let s2 = upd_map (removeAdded (markers (heap s1 this))) s1
               in case clusterMarker (heap s2 this) of
                    None \<Rightarrow>
                      (case ClusterMarker_initialize (center (heap s2 this))
                              (Cluster_getTotalMarkers this s2) (styles s2) (gridSize s2 / 2) of
                         Thrown e b \<Rightarrow> Thrown e s2
                       | Returned u b \<Rightarrow>
                           Returned ()
                             (upd_map (addLayer (BadgeLayer this))
                                (upd_cluster this (\<lambda>c. c\<lparr>clusterMarker := Some b\<rparr>) s2)))
                  | Some b \<Rightarrow>
                      (case ClusterMarker_reset
                              \<lparr>opt_latLng = None, opt_count = Cluster_getTotalMarkers this s2,
                               opt_styles = None, opt_padding = None\<rparr> b of
                         Thrown e b' \<Rightarrow>
                           Thrown e (upd_cluster this (\<lambda>c. c\<lparr>clusterMarker := Some b'\<rparr>) s2)
                       | Returned u b' \<Rightarrow>
                           Returned ()
                             (upd_cluster this
                                (\<lambda>c. c\<lparr>clusterMarker :=
                                         Some (if ClusterMarker_isHidden b'
                                               then ClusterMarker_show b' else b')\<rparr>) s2)))))"

section \<open>LeafClusterer\<close>

definition isMarkerInViewport :: "marker \<Rightarrow> clusterer \<Rightarrow> bool" where
  "isMarkerInViewport m s = contains (getBounds (hostMap s)) (getLatLng m)"

text \<open>
  The search loop of \<^verbatim>\<open>addMarker\<close>, \<^verbatim>\<open>for (var i = length - 1; i >= 0; i--)\<close>: the
  function is given the candidates in the order the loop visits them, last first.
\<close>

fun addMarker_scan :: "point \<Rightarrow> cid list \<Rightarrow> clusterer \<Rightarrow> cid option" where
  "addMarker_scan pos [] s = None"
| "addMarker_scan pos (cluster # rest) s =
     (case Cluster_getCenter cluster s of
        None \<Rightarrow> addMarker_scan pos rest s
      | Some c \<Rightarrow>
          (let ctr = latLngToLayerPoint (hostMap s) c
           in if pt_x pos \<ge> pt_x ctr - gridSize s \<and> pt_x pos \<le> pt_x ctr + gridSize s \<and>
                 pt_y pos \<ge> pt_y ctr - gridSize s \<and> pt_y pos \<le> pt_y ctr + gridSize s
              then Some cluster
              else addMarker_scan pos rest s))"

text \<open>
  \<^verbatim>\<open>this.addMarker = function (marker, opt_isNodraw, opt_isAdded, opt_clusters, opt_isNoCheck)\<close>.
  An absent flag is \<open>False\<close>, an absent (or \<^verbatim>\<open>null\<close>) \<^verbatim>\<open>opt_isAdded\<close> or \<^verbatim>\<open>opt_clusters\<close>
  is \<open>None\<close>. \<^verbatim>\<open>opt_clusters\<close> is an array of the caller, which \<^verbatim>\<open>push\<close> changes: the
  call returns it. \<^verbatim>\<open>new Cluster\<close> takes the next free reference.
\<close>

definition addMarker ::
    "marker \<Rightarrow> bool \<Rightarrow> bool option \<Rightarrow> cid list option \<Rightarrow> bool \<Rightarrow> clusterer
      \<Rightarrow> (cid list option, clusterer) outcome" where
  "addMarker m opt_isNodraw opt_isAdded opt_clusters opt_isNoCheck s =
     (if \<not> opt_isNoCheck \<and> \<not> isMarkerInViewport m s then
        Returned opt_clusters (s\<lparr>leftMarkers := leftMarkers s @ [m]\<rparr>)
      else
        (let added = (case opt_isAdded of None \<Rightarrow> False | Some b \<Rightarrow> b);
             cands = (case opt_clusters of None \<Rightarrow> clusters s | Some cs \<Rightarrow> cs);
             pos = latLngToLayerPoint (hostMap s) (getLatLng m);
             ref = \<lparr>isAdded = added, marker = m\<rparr>
         in case addMarker_scan pos (rev cands) s of
              Some cluster \<Rightarrow>
                (let s1 = Cluster_addMarker cluster ref s
                 in if \<not> opt_isNodraw then
                      (case Cluster_redraw cluster False s1 of
                         Thrown e s2 \<Rightarrow> Thrown e s2
                       | Returned u s2 \<Rightarrow> Returned opt_clusters s2)
                    else Returned opt_clusters s1)
            | None \<Rightarrow>
                (let cluster = next_cid s;
                     s0 = s\<lparr>heap := (heap s)(cluster := Cluster_new (hostMap s)),
                            next_cid := Suc (next_cid s)\<rparr>;
                     s1 = Cluster_addMarker cluster ref s0
                 in case (if \<not> opt_isNodraw then Cluster_redraw cluster False s1
                          else Returned () s1) of
                      Thrown e s2 \<Rightarrow> Thrown e s2
                    | Returned u s2 \<Rightarrow>
                        (case opt_clusters of
                           None \<Rightarrow> Returned None (s2\<lparr>clusters := clusters s2 @ [cluster]\<rparr>)
                         | Some cs \<Rightarrow>
                             Returned (Some (cs @ [cluster]))
                               (s2\<lparr>clusters := clusters s2 @ [cluster]\<rparr>)))))"

text \<open>
  \<^verbatim>\<open>clusters_[i].remove(marker)\<close>: a \<^verbatim>\<open>Cluster\<close> has the methods \<^verbatim>\<open>getMarkers\<close>,
  \<^verbatim>\<open>isInBounds\<close>, \<^verbatim>\<open>getCenter\<close>, \<^verbatim>\<open>addMarker\<close>, \<^verbatim>\<open>removeMarker\<close>, \<^verbatim>\<open>getCurrentZoom\<close>,
  \<^verbatim>\<open>redraw_\<close>, \<^verbatim>\<open>clearMarkers\<close> and \<^verbatim>\<open>getTotalMarkers\<close>, and no property \<^verbatim>\<open>remove\<close>.
  Calling the undefined property raises TypeError.
\<close>

definition Cluster_remove :: "cid \<Rightarrow> marker \<Rightarrow> clusterer \<Rightarrow> (bool, clusterer) outcome" where
  "Cluster_remove this m s = Thrown TypeError s"

text \<open>\<^verbatim>\<open>this.removeMarker = function (marker)\<close> of the clusterer.\<close>

fun removeMarker_loop :: "marker \<Rightarrow> cid list \<Rightarrow> clusterer \<Rightarrow> (unit, clusterer) outcome" where
  "removeMarker_loop m [] s = Returned () s"
| "removeMarker_loop m (c # cs) s =
     (case Cluster_remove c m s of
        Thrown e s' \<Rightarrow> Thrown e s'
      | Returned found s' \<Rightarrow>
          if found then Cluster_redraw c False s' else removeMarker_loop m cs s')"

definition removeMarker :: "marker \<Rightarrow> clusterer \<Rightarrow> (unit, clusterer) outcome" where
  "removeMarker m s = removeMarker_loop m (clusters s) s"

definition getClustersInViewport :: "clusterer \<Rightarrow> cid list" where
  "getClustersInViewport s =
     filter (\<lambda>c. Cluster_isInBounds c (Some (getBounds (hostMap s))) s) (clusters s)"

fun redraw_loop :: "cid list \<Rightarrow> clusterer \<Rightarrow> (unit, clusterer) outcome" where
  "redraw_loop [] s = Returned () s"
| "redraw_loop (c # cs) s =
     (case Cluster_redraw c True s of
        Thrown e s' \<Rightarrow> Thrown e s'
      | Returned u s' \<Rightarrow> redraw_loop cs s')"

text \<open>\<^verbatim>\<open>this.redraw_\<close> of the clusterer.\<close>

definition redraw :: "clusterer \<Rightarrow> (unit, clusterer) outcome" where
  "redraw s = redraw_loop (getClustersInViewport s) s"

definition getTotalMarkers :: "clusterer \<Rightarrow> nat" where
  "getTotalMarkers s = foldl (\<lambda>result c. result + Cluster_getTotalMarkers c s) 0 (clusters s)"

definition getTotalClusters :: "clusterer \<Rightarrow> nat" where
  "getTotalClusters s = length (clusters s)"

text \<open>
  \<^verbatim>\<open>for (j = 0; j < clusters_.length; ++j) if (cluster === clusters_[j]) clusters_.splice(j, 1);\<close>
  After a splice the next element has moved to index \<open>j\<close>, and \<^verbatim>\<open>++j\<close> steps over it.
\<close>

fun splice_cluster :: "cid \<Rightarrow> cid list \<Rightarrow> cid list" where
  "splice_cluster cluster [] = []"
| "splice_cluster cluster [a] = (if cluster = a then [] else [a])"
| "splice_cluster cluster (a # b # rest) =
     (if cluster = a then b # splice_cluster cluster rest
      else a # splice_cluster cluster (b # rest))"

text \<open>
  The first loop of \<^verbatim>\<open>resetViewport\<close>, over the clusters that were in the viewport when it
  started. \<^verbatim>\<open>oldZoom === null\<close> never holds: the constructor stored a number.
\<close>

fun resetViewport_loop ::
    "cid list \<Rightarrow> marker_ref list \<Rightarrow> clusterer \<Rightarrow> marker_ref list \<times> clusterer" where
  "resetViewport_loop [] tmpMarkers s = (tmpMarkers, s)"
| "resetViewport_loop (cluster # rest) tmpMarkers s =
     (let oldZoom = Cluster_getCurrentZoom cluster s;
          curZoom = getZoom (hostMap s)
      in if curZoom \<noteq> oldZoom then
           (let mks = Cluster_getMarkers cluster s;
                tmpMarkers = tmpMarkers @ map (\<lambda>r. \<lparr>isAdded = False, marker = marker r\<rparr>) mks;
                s1 = Cluster_clearMarkers cluster s;
                s2 = s1\<lparr>clusters := splice_cluster cluster (clusters s1)\<rparr>
            in resetViewport_loop rest tmpMarkers s2)
         else resetViewport_loop rest tmpMarkers s)"

text \<open>The loop of \<^verbatim>\<open>addLeftMarkers_\<close>; with the check bypassed no call changes \<^verbatim>\<open>leftMarkers_\<close>.\<close>

fun addLeftMarkers_loop :: "marker list \<Rightarrow> clusterer \<Rightarrow> (unit, clusterer) outcome" where
  "addLeftMarkers_loop [] s = Returned () s"
| "addLeftMarkers_loop (m # ms) s =
     (case addMarker m True None None True s of
        Thrown e s' \<Rightarrow> Thrown e s'
      | Returned u s' \<Rightarrow> addLeftMarkers_loop ms s')"

definition addLeftMarkers :: "clusterer \<Rightarrow> (unit, clusterer) outcome" where
  "addLeftMarkers s =
     (if length (leftMarkers s) = 0 then Returned () s
      else
        (case addLeftMarkers_loop (leftMarkers s) s of
           Thrown e s' \<Rightarrow> Thrown e s'
         | Returned u s' \<Rightarrow> Returned () (s'\<lparr>leftMarkers := []\<rparr>)))"

text \<open>
  The loop of \<^verbatim>\<open>reAddMarkers_\<close>, \<^verbatim>\<open>for (var i = len - 1; i >= 0; --i)\<close>, given the
  collected entries last first, and the local array \<^verbatim>\<open>clusters\<close>.
\<close>

fun reAddMarkers_loop ::
    "marker_ref list \<Rightarrow> cid list option \<Rightarrow> clusterer \<Rightarrow> (cid list option, clusterer) outcome" where
  "reAddMarkers_loop [] cl s = Returned cl s"
| "reAddMarkers_loop (r # rs) cl s =
     (case addMarker (marker r) True (Some (isAdded r)) cl True s of
        Thrown e s' \<Rightarrow> Thrown e s'
      | Returned cl' s' \<Rightarrow> reAddMarkers_loop rs cl' s')"

definition reAddMarkers :: "marker_ref list \<Rightarrow> clusterer \<Rightarrow> (unit, clusterer) outcome" where
  "reAddMarkers mks s =
     (case reAddMarkers_loop (rev mks) (Some []) s of
        Thrown e s' \<Rightarrow> Thrown e s'
      | Returned cl s' \<Rightarrow> addLeftMarkers s')"

definition resetViewport :: "clusterer \<Rightarrow> (unit, clusterer) outcome" where
  "resetViewport s =
     (case resetViewport_loop (getClustersInViewport s) [] s of
        (tmpMarkers, s1) \<Rightarrow>
          (case reAddMarkers tmpMarkers s1 of
             Thrown e s2 \<Rightarrow> Thrown e s2
           | Returned u s2 \<Rightarrow> redraw s2))"

fun addMarkers_loop :: "marker list \<Rightarrow> clusterer \<Rightarrow> (unit, clusterer) outcome" where
  "addMarkers_loop [] s = Returned () s"
| "addMarkers_loop (m # ms) s =
     (case addMarker m True None None False s of
        Thrown e s' \<Rightarrow> Thrown e s'
      | Returned u s' \<Rightarrow> addMarkers_loop ms s')"

definition addMarkers :: "marker list \<Rightarrow> clusterer \<Rightarrow> (unit, clusterer) outcome" where
  "addMarkers ms s =
     (case addMarkers_loop ms s of
        Thrown e s' \<Rightarrow> Thrown e s'
      | Returned u s' \<Rightarrow> redraw s')"

text \<open>\<^verbatim>\<open>this.clearMarkers\<close> of the clusterer.\<close>

definition clearMarkers :: "clusterer \<Rightarrow> clusterer" where
  "clearMarkers s = (fold Cluster_clearMarkers (clusters s) s)\<lparr>clusters := [], leftMarkers := []\<rparr>"

text \<open>
  The constructor. \<open>opts_gridSize\<close>, \<open>opts_maxZoom\<close> and \<open>opts_styles\<close> are the properties of
  \<^verbatim>\<open>opt_opts\<close> when they have the type the constructor tests for. No \<^verbatim>\<open>Cluster\<close> exists
  yet: every free reference of the store holds the members of a new one.
\<close>

record options =
  opts_gridSize :: "rat option"
  opts_maxZoom :: "int option"
  opts_styles :: "style list option"

definition default_styles :: "style list" where
  "default_styles =
     map (\<lambda>(i, sz).
            \<lparr>url = ''http://gmaps-utility-library.googlecode.com/svn/trunk/markerclusterer/images/m''
                     @ i @ ''.png'',
             height = sz, width = sz, opt_textColor = None, opt_anchor = None\<rparr>)
       [(''1'', 53), (''2'', 56), (''3'', 66), (''4'', 78), (''5'', 90)]"

definition LeafClusterer ::
    "host_map \<Rightarrow> marker list option \<Rightarrow> options option \<Rightarrow> (unit, clusterer) outcome" where
  "LeafClusterer m opt_markers opt_opts =
     (let s = \<lparr>clusters = [], leftMarkers = [], gridSize = 40, maxZoom = None,
                styles = default_styles, hostMap = m, heap = (\<lambda>_. Cluster_new m), next_cid = 0\<rparr>;
          s = (case opt_opts of
                 None \<Rightarrow> s
               | Some opts \<Rightarrow>
                   (let s = (case opts_gridSize opts of
                               None \<Rightarrow> s
                             | Some g \<Rightarrow> if g > 0 then s\<lparr>gridSize := g\<rparr> else s);
                        s = (case opts_maxZoom opts of
                               None \<Rightarrow> s
                             | Some z \<Rightarrow> s\<lparr>maxZoom := Some z\<rparr>)
                    in case opts_styles opts of
                         None \<Rightarrow> s
                       | Some sts \<Rightarrow> if length sts \<noteq> 0 then s\<lparr>styles := sts\<rparr> else s))
      in case opt_markers of
           None \<Rightarrow> Returned () s
         | Some ms \<Rightarrow> addMarkers ms s)"

section \<open>Runs of the public operations\<close>

text \<open>
  A call of the public interface, or a change of the host map's view between two calls.
  \<open>AddMarker m opt_isNodraw opt_isAdded opt_isNoCheck\<close> is a call of \<^verbatim>\<open>addMarker\<close>
  without \<^verbatim>\<open>opt_clusters\<close>: a caller holds no array of clusters of its own to pass.
\<close>

datatype op =
    AddMarker marker bool "bool option" bool
  | AddMarkers "marker list"
  | RemoveMarker marker
  | ResetViewport
  | ClearMarkers
  | HostView int int bounds "latlng \<Rightarrow> point"

fun step :: "op \<Rightarrow> clusterer \<Rightarrow> clusterer" where
  "step (AddMarker m opt_isNodraw opt_isAdded opt_isNoCheck) s =
     state_of (addMarker m opt_isNodraw opt_isAdded None opt_isNoCheck s)"
| "step (AddMarkers ms) s = state_of (addMarkers ms s)"
| "step (RemoveMarker m) s = state_of (removeMarker m s)"
| "step ResetViewport s = state_of (resetViewport s)"
| "step ClearMarkers s = clearMarkers s"
| "step (HostView z mz b p) s =
     s\<lparr>hostMap := (hostMap s)\<lparr>getZoom := z, getMaxZoom := mz, getBounds := b,
                                 latLngToLayerPoint := p\<rparr>\<rparr>"

definition exec :: "op list \<Rightarrow> clusterer \<Rightarrow> clusterer" where
  "exec ops s = fold step ops s"

text \<open>The markers a run registers, in order; \<^verbatim>\<open>clearMarkers\<close> forgets them all.\<close>

fun registered :: "op list \<Rightarrow> marker list \<Rightarrow> marker list" where
  "registered [] acc = acc"
| "registered (AddMarker m opt_isNodraw opt_isAdded opt_isNoCheck # ops) acc =
     registered ops (acc @ [m])"
| "registered (AddMarkers ms # ops) acc = registered ops (acc @ ms)"
| "registered (ClearMarkers # ops) acc = registered ops []"
| "registered (x # ops) acc = registered ops acc"

text \<open>The members of a cluster, and every container slot of the engine, in order.\<close>

definition members :: "clusterer \<Rightarrow> cid \<Rightarrow> marker list" where
  "members s c = map marker (markers (heap s c))"

definition slots :: "clusterer \<Rightarrow> marker list" where
  "slots s = concat (map (members s) (clusters s)) @ leftMarkers s"

text \<open>References are distinct and allocated.\<close>

definition refs_ok :: "clusterer \<Rightarrow> bool" where
  "refs_ok s = (distinct (clusters s) \<and> list_all (\<lambda>c. c < next_cid s) (clusters s))"

section \<open>A scenario\<close>

text \<open>
  A host map at zoom 10 of 18 whose projection sends a position to the pixel
  \<open>(lng, - lat)\<close>, with a view of 500 pixels around the origin, and three markers at the
  pixels (0,0), (10,10) and (200,200).
\<close>

definition scenario_project :: "latlng \<Rightarrow> point" where
  "scenario_project l = \<lparr>pt_x = lng l, pt_y = - lat l\<rparr>"

definition scenario_bounds :: bounds where
  "scenario_bounds =
     \<lparr>getSouthWest = \<lparr>lat = - 500, lng = - 500\<rparr>, getNorthEast = \<lparr>lat = 500, lng = 500\<rparr>,
      contains = (\<lambda>l. - 500 \<le> lat l \<and> lat l \<le> 500 \<and> - 500 \<le> lng l \<and> lng l \<le> 500)\<rparr>"

definition scenario_map :: host_map where
  "scenario_map =
     \<lparr>getZoom = 10, getMaxZoom = 18, getBounds = scenario_bounds,
      latLngToLayerPoint = scenario_project, layers = {}\<rparr>"

definition m1 :: marker where "m1 = Marker 1 \<lparr>lat = 0, lng = 0\<rparr>"
definition m2 :: marker where "m2 = Marker 2 \<lparr>lat = - 10, lng = 10\<rparr>"
definition m3 :: marker where "m3 = Marker 3 \<lparr>lat = - 200, lng = 200\<rparr>"
definition m4 :: marker where "m4 = Marker 4 \<lparr>lat = 0, lng = 900\<rparr>"

definition scenario_opts :: options where
  "scenario_opts = \<lparr>opts_gridSize = Some 40, opts_maxZoom = Some 18, opts_styles = None\<rparr>"

definition scenario_clusterer :: clusterer where
  "scenario_clusterer = state_of (LeafClusterer scenario_map None (Some scenario_opts))"

section \<open>Well-formed engine states\<close>

text \<open>
  A badge that \<^verbatim>\<open>reset\<close> has styled for a count of at least two out of the style tiers
  \<open>sts\<close>: the tier index is what the digit loop gives for the count, cut at the number
  of tiers, and the style is the entry of that tier.
\<close>

definition badge_ok :: "style list \<Rightarrow> cluster_marker \<Rightarrow> bool" where
  "badge_ok sts b =
     (cm_styles b = Some sts \<and>
      (case cm_count b of
         None \<Rightarrow> False
       | Some n \<Rightarrow>
           2 \<le> n \<and>
           cm_index b = Some (min (digits_loop n 0) (length sts)) \<and>
           cm_style b = Some (sts ! (min (digits_loop n 0) (length sts) - 1))))"

definition cluster_ok :: "style list \<Rightarrow> cluster \<Rightarrow> bool" where
  "cluster_ok sts c =
     (markers c \<noteq> [] \<and>
      (case clusterMarker c of None \<Rightarrow> True | Some b \<Rightarrow> badge_ok sts b))"

text \<open>
  The state of an engine between two calls: distinct, allocated references, at least one
  style tier, and no empty cluster in \<^verbatim>\<open>clusters_\<close>.
\<close>

definition engine_ok :: "clusterer \<Rightarrow> bool" where
  "engine_ok s =
     (refs_ok s \<and> styles s \<noteq> [] \<and> list_all (\<lambda>c. cluster_ok (styles s) (heap s c)) (clusters s))"

section \<open>The properties in the words of the specification\<close>

text \<open>The configured maximum zoom, or the map's own when none is configured.\<close>

definition effective_maxZoom :: "clusterer \<Rightarrow> int" where
  "effective_maxZoom s = (case maxZoom s of None \<Rightarrow> getMaxZoom (hostMap s) | Some z \<Rightarrow> z)"

text \<open>
  A cluster drawn as individual markers: every member's marker is attached to the map and
  flagged placed, and a badge, if there is one, is hidden.
\<close>

definition drawn_individually :: "cid \<Rightarrow> clusterer \<Rightarrow> bool" where
  "drawn_individually this s =
     (list_all (\<lambda>r. isAdded r \<and> MarkerLayer (marker r) \<in> layers (hostMap s))
        (markers (heap s this)) \<and>
      (case clusterMarker (heap s this) of None \<Rightarrow> True | Some b \<Rightarrow> hidden b))"

text \<open>
  A cluster drawn as a badge that shows the count \<open>n\<close>: it has a badge, the badge is
  attached to the map and not hidden, and its count is \<open>n\<close>.
\<close>

definition drawn_as_badge :: "cid \<Rightarrow> nat \<Rightarrow> clusterer \<Rightarrow> bool" where
  "drawn_as_badge this n s =
     (case clusterMarker (heap s this) of
        None \<Rightarrow> False
      | Some b \<Rightarrow>
          cm_count b = Some n \<and> \<not> hidden b \<and> BadgeLayer this \<in> layers (hostMap s))"

text \<open>
  A cluster whose badge can be updated: there is a style tier for a new badge, and a badge
  the cluster already has was styled from at least one tier and is still attached to the
  map.
\<close>

definition badge_usable :: "cid \<Rightarrow> clusterer \<Rightarrow> bool" where
  "badge_usable this s =
     (case clusterMarker (heap s this) of
        None \<Rightarrow> styles s \<noteq> []
      | Some b \<Rightarrow>
          cm_styles b \<noteq> None \<and> cm_styles b \<noteq> Some [] \<and>
          BadgeLayer this \<in> layers (hostMap s))"

text \<open>
  The half-size of a cluster's footprint at the map's current zoom: the grid size, scaled
  by two to the power of the zoom difference when the cluster was stamped at another zoom.
\<close>

definition effective_half_size :: "cid \<Rightarrow> clusterer \<Rightarrow> rat" where
  "effective_half_size this s =
     (if zoom (heap s this) = getZoom (hostMap s) then gridSize s
      else gridSize s * 2 powi (getZoom (hostMap s) - zoom (heap s this)))"

text \<open>
  Overlap on the x axis, and on the y axis, of the square of half-size \<open>g\<close> around the
  pixel \<open>c\<close> with the rectangle between the pixels \<open>sw\<close> and \<open>ne\<close>; pixel \<open>y\<close> grows
  to the south.
\<close>

definition overlaps_x :: "point \<Rightarrow> rat \<Rightarrow> point \<Rightarrow> point \<Rightarrow> bool" where
  "overlaps_x c g sw ne = (pt_x sw \<le> pt_x c + g \<and> pt_x c - g \<le> pt_x ne)"

definition overlaps_y :: "point \<Rightarrow> rat \<Rightarrow> point \<Rightarrow> point \<Rightarrow> bool" where
  "overlaps_y c g sw ne = (pt_y ne \<le> pt_y c + g \<and> pt_y c - g \<le> pt_y sw)"

definition footprint_overlaps :: "cid \<Rightarrow> bounds \<Rightarrow> clusterer \<Rightarrow> bool" where
  "footprint_overlaps this b s =
     (case center (heap s this) of
        None \<Rightarrow> False
      | Some c \<Rightarrow>
          overlaps_x (latLngToLayerPoint (hostMap s) c) (effective_half_size this s)
            (latLngToLayerPoint (hostMap s) (getSouthWest b))
            (latLngToLayerPoint (hostMap s) (getNorthEast b)) \<and>
          overlaps_y (latLngToLayerPoint (hostMap s) c) (effective_half_size this s)
            (latLngToLayerPoint (hostMap s) (getSouthWest b))
            (latLngToLayerPoint (hostMap s) (getNorthEast b)))"

text \<open>The bounds \<^verbatim>\<open>isInBounds\<close> tests: the given ones, or the map's current ones.\<close>

definition tested_bounds :: "bounds option \<Rightarrow> clusterer \<Rightarrow> bounds" where
  "tested_bounds bo s = (case bo of None \<Rightarrow> getBounds (hostMap s) | Some b \<Rightarrow> b)"

text \<open>The center is unset exactly when there is no member; and one direction of it.\<close>

definition center_iff_members :: "cluster \<Rightarrow> bool" where
  "center_iff_members c = (center c = None \<longleftrightarrow> markers c = [])"

definition center_if_members :: "cluster \<Rightarrow> bool" where
  "center_if_members c = (markers c \<noteq> [] \<longrightarrow> center c \<noteq> None)"

text \<open>
  A cluster whose projected center differs from the pixel \<open>pos\<close> by at most the grid size
  on both axes, and the first such cluster of the candidates in reverse insertion order.
\<close>

definition within_grid :: "clusterer \<Rightarrow> point \<Rightarrow> cid \<Rightarrow> bool" where
  "within_grid s pos c =
     (case center (heap s c) of
        None \<Rightarrow> False
      | Some l \<Rightarrow>
          \<bar>pt_x pos - pt_x (latLngToLayerPoint (hostMap s) l)\<bar> \<le> gridSize s \<and>
          \<bar>pt_y pos - pt_y (latLngToLayerPoint (hostMap s) l)\<bar> \<le> gridSize s)"

definition first_fit :: "clusterer \<Rightarrow> point \<Rightarrow> cid list \<Rightarrow> cid option" where
  "first_fit s pos cands = find (within_grid s pos) (rev cands)"

text \<open>The scenario after its four markers were added in one batch.\<close>

definition scenario_added :: clusterer where
  "scenario_added = exec [AddMarkers [m1, m2, m3, m4]] scenario_clusterer"

text \<open>Bounds whose east and west edges coincide, 900 pixels east of the origin.\<close>

definition meridian_bounds :: bounds where
  "meridian_bounds =
     \<lparr>getSouthWest = \<lparr>lat = - 500, lng = 900\<rparr>, getNorthEast = \<lparr>lat = 500, lng = 900\<rparr>,
      contains = (\<lambda>l. - 500 \<le> lat l \<and> lat l \<le> 500 \<and> lng l = 900)\<rparr>"

text \<open>The scenario after \<^verbatim>\<open>addMarker(m1)\<close> alone.\<close>

definition scenario_one :: clusterer where
  "scenario_one = exec [AddMarker m1 False None False] scenario_clusterer"

text \<open>The scenario after \<^verbatim>\<open>addMarker(m1)\<close> and \<^verbatim>\<open>addMarker(m2, true)\<close>.\<close>

definition scenario_two :: clusterer where
  "scenario_two = exec [AddMarker m1 False None False, AddMarker m2 True None False] scenario_clusterer"

text \<open>A candidate array of \<^verbatim>\<open>addMarker\<close> that holds clusters of \<^verbatim>\<open>clusters_\<close> only.\<close>

definition candidates_ok :: "cid list option \<Rightarrow> clusterer \<Rightarrow> bool" where
  "candidates_ok cl s = (case cl of None \<Rightarrow> True | Some cs \<Rightarrow> set cs \<subseteq> set (clusters s))"

text \<open>Two states with the same configuration and the same view of the host map.\<close>

definition same_view :: "clusterer \<Rightarrow> clusterer \<Rightarrow> bool" where
  "same_view s s' =
     (gridSize s' = gridSize s \<and> maxZoom s' = maxZoom s \<and> styles s' = styles s \<and>
      getZoom (hostMap s') = getZoom (hostMap s) \<and>
      getMaxZoom (hostMap s') = getMaxZoom (hostMap s) \<and>
      getBounds (hostMap s') = getBounds (hostMap s) \<and>
      latLngToLayerPoint (hostMap s') = latLngToLayerPoint (hostMap s))"

section \<open>The re-clustering protocol in the words of the specification\<close>

text \<open>The clusters of the list \<open>xs\<close> whose remembered zoom is not the map's current zoom.\<close>

definition stale :: "cid list \<Rightarrow> clusterer \<Rightarrow> cid list" where
  "stale xs s = filter (\<lambda>c. zoom (heap s c) \<noteq> getZoom (hostMap s)) xs"

text \<open>The members of the clusters \<open>cs\<close>, each with its placed flag reset.\<close>

definition collect :: "cid list \<Rightarrow> clusterer \<Rightarrow> marker_ref list" where
  "collect cs s =
     concat (map (\<lambda>c. map (\<lambda>r. \<lparr>isAdded = False, marker = marker r\<rparr>) (markers (heap s c))) cs)"

text \<open>The state with the clusters \<open>cs\<close> cleared and removed from the global list.\<close>

definition dissolve :: "cid list \<Rightarrow> clusterer \<Rightarrow> clusterer" where
  "dissolve cs s =
     (fold Cluster_clearMarkers cs s)\<lparr>clusters := filter (\<lambda>c. c \<notin> set cs) (clusters s)\<rparr>"

text \<open>
  The in-viewport clusters with a stale zoom, the markers collected from them, and the
  state once they are dissolved.
\<close>

definition stale_clusters :: "clusterer \<Rightarrow> cid list" where
  "stale_clusters s = stale (getClustersInViewport s) s"

definition collected :: "clusterer \<Rightarrow> marker_ref list" where
  "collected s = collect (stale_clusters s) s"

definition dissolved :: "clusterer \<Rightarrow> clusterer" where
  "dissolved s = dissolve (stale_clusters s) s"

text \<open>
  Re-adding markers, in the order given, by \<^verbatim>\<open>addMarker\<close> with the viewport check
  bypassed, the redraw suppressed and the placed flag false, against the candidate list
  \<open>cands\<close>; the result is the final candidate list and state.
\<close>

fun readd :: "marker list \<Rightarrow> cid list \<Rightarrow> clusterer \<Rightarrow> cid list \<times> clusterer" where
  "readd [] cands s = (cands, s)"
| "readd (m # ms) cands s =
     (case addMarker m True (Some False) (Some cands) True s of
        Returned (Some cands') s' \<Rightarrow> readd ms cands' s'
      | Returned None s' \<Rightarrow> (cands, s')
      | Thrown e s' \<Rightarrow> (cands, s'))"

text \<open>Re-attempting the pending markers, viewport check bypassed, and emptying the list.\<close>

definition reattempt_pending :: "clusterer \<Rightarrow> clusterer" where
  "reattempt_pending s =
     (fold (\<lambda>m s. state_of (addMarker m True None None True s)) (leftMarkers s) s)
       \<lparr>leftMarkers := []\<rparr>"

text \<open>
  Redrawing every cluster in the viewport: each cluster of the global list that the
  viewport test puts in the map's current bounds is redrawn by force, in the order of the
  list, the test being made for all of them before the first is redrawn; an exception of
  one redraw ends the pass.
\<close>

definition redraw_viewport :: "clusterer \<Rightarrow> (unit, clusterer) outcome" where
  "redraw_viewport s =
     fold (\<lambda>c r. case r of Thrown e s' \<Rightarrow> Thrown e s' | Returned u s' \<Rightarrow> Cluster_redraw c True s')
       (filter (\<lambda>c. Cluster_isInBounds c (Some (getBounds (hostMap s))) s) (clusters s))
       (Returned () s)"

text \<open>
  The whole protocol: dissolve the stale in-viewport clusters, re-add the collected markers
  in reverse collection order against a fresh empty candidate list, re-attempt the pending
  markers, redraw every cluster in the viewport.
\<close>

definition resetViewport_protocol :: "clusterer \<Rightarrow> (unit, clusterer) outcome" where
  "resetViewport_protocol s =
     redraw_viewport
       (reattempt_pending (snd (readd (rev (map marker (collected s))) [] (dissolved s))))"

text \<open>
  A marker that occupies exactly one container slot: it occurs once among all slots, and
  either in the members list of exactly one cluster and not in the pending list, or in the
  pending list and in no cluster.
\<close>

definition in_one_container :: "clusterer \<Rightarrow> marker \<Rightarrow> bool" where
  "in_one_container s mk =
     (count_list (slots s) mk = 1 \<and>
      ((mk \<notin> set (leftMarkers s) \<and>
        (\<exists>c \<in> set (clusters s). mk \<in> set (members s c) \<and>
           (\<forall>c' \<in> set (clusters s). c' \<noteq> c \<longrightarrow> mk \<notin> set (members s c')))) \<or>
       (mk \<in> set (leftMarkers s) \<and> (\<forall>c \<in> set (clusters s). mk \<notin> set (members s c)))))"

text \<open>The markers handed to the constructor.\<close>

definition initial_markers :: "marker list option \<Rightarrow> marker list" where
  "initial_markers opt_markers = (case opt_markers of None \<Rightarrow> [] | Some ms \<Rightarrow> ms)"

text \<open>
  A run of the scenario: the four markers in one batch, an attempt to remove the first,
  a zoom of the map from 10 to 12 with the same bounds and projection, and the
  re-clustering that follows.
\<close>

definition scenario_run :: "op list" where
  "scenario_run =
     [AddMarkers [m1, m2, m3, m4], RemoveMarker m1,
      HostView 12 18 scenario_bounds scenario_project, ResetViewport]"

text \<open>A view of 1000 pixels around the origin, which includes \<open>m4\<close>.\<close>

definition wide_bounds :: bounds where
  "wide_bounds =
     \<lparr>getSouthWest = \<lparr>lat = - 1000, lng = - 1000\<rparr>, getNorthEast = \<lparr>lat = 1000, lng = 1000\<rparr>,
      contains = (\<lambda>l. - 1000 \<le> lat l \<and> lat l \<le> 1000 \<and> - 1000 \<le> lng l \<and> lng l \<le> 1000)\<rparr>"

text \<open>The scenario of two markers after \<^verbatim>\<open>addMarker(m4)\<close>, and after the view then widened.\<close>

definition scenario_deferred :: clusterer where
  "scenario_deferred = step (AddMarker m4 False None False) scenario_two"

definition scenario_widened :: clusterer where
  "scenario_widened = step (HostView 10 18 wide_bounds scenario_project) scenario_deferred"

text \<open>The badge of a cluster of two markers at the origin, out of the default styles.\<close>

definition scenario_badge :: cluster_marker where
  "scenario_badge =
     \<lparr>cm_latlng = Some \<lparr>lat = 0, lng = 0\<rparr>, cm_count = Some 2, cm_styles = Some default_styles,
      cm_style = Some (default_styles ! 0), cm_index = Some 1, cm_padding = Some 20,
      hidden = False\<rparr>"

text \<open>The scenario of two markers after the map zoomed from 10 to 12.\<close>

definition scenario_zoomed :: clusterer where
  "scenario_zoomed = step (HostView 12 18 scenario_bounds scenario_project) scenario_two"

chapter \<open>The engine of part 000\<close>

text \<open>
  \<^verbatim>\<open>src/unnamed/part_000\<close> holds the same engine written as Leaflet classes:
  \<^verbatim>\<open>L.Marker.Clusterer\<close>, \<^verbatim>\<open>L.Marker.Cluster\<close> and \<^verbatim>\<open>L.Marker.ClusterMarker\<close>. Its objects
  have the members of the other file's under other names (\<^verbatim>\<open>this._clusters\<close> for
  \<^verbatim>\<open>clusters_\<close>, \<^verbatim>\<open>this._leftMarkers\<close> for \<^verbatim>\<open>leftMarkers_\<close>, \<^verbatim>\<open>this._map\<close> for \<^verbatim>\<open>map_\<close>,
  \<^verbatim>\<open>this._center\<close> for \<^verbatim>\<open>center_\<close>, ...), so the records of the data model serve for both;
  every function of the file is translated on its own, under its name with \<open>L\<close> in front.
\<close>

section \<open>L.Marker.ClusterMarker\<close>

text \<open>The digit loop of \<^verbatim>\<open>reset\<close>, on \<^verbatim>\<open>this._count\<close>.\<close>

function L_digits_loop :: "nat \<Rightarrow> nat \<Rightarrow> nat" where
  "L_digits_loop dv index = (if dv \<noteq> 0 then L_digits_loop (dv div 10) (index + 1) else index)"
  by pat_completeness auto
termination
  by (relation "measure fst") auto

declare L_digits_loop.simps [simp del]

text \<open>The last test of \<^verbatim>\<open>reset\<close>, on \<^verbatim>\<open>this._padding\<close>.\<close>

definition L_reset_padding :: "reset_opts \<Rightarrow> cluster_marker \<Rightarrow> cluster_marker" where
  "L_reset_padding opts this =
     (case opt_padding opts of
        None \<Rightarrow> this
      | Some p \<Rightarrow> if cm_padding this \<noteq> Some p then this\<lparr>cm_padding := Some p\<rparr> else this)"

text \<open>
  \<^verbatim>\<open>reset: function(opts)\<close>. The fields \<^verbatim>\<open>_latlng\<close>, \<^verbatim>\<open>_count\<close>, \<^verbatim>\<open>_styles\<close> and \<^verbatim>\<open>_padding\<close>
  are the fields \<open>cm_latlng\<close>, \<open>cm_count\<close>, \<open>cm_styles\<close> and \<open>cm_padding\<close> of the badge record.
\<close>

definition L_ClusterMarker_reset ::
    "reset_opts \<Rightarrow> cluster_marker \<Rightarrow> (unit, cluster_marker) outcome" where
  "L_ClusterMarker_reset opts this =
     (let this1 = (case opt_latLng opts of
                     None \<Rightarrow> this
                   | Some l \<Rightarrow> if cm_latlng this \<noteq> Some l then this\<lparr>cm_latlng := Some l\<rparr> else this);
          styles_updated = (case opt_styles opts of
                              None \<Rightarrow> False
                            | Some sts \<Rightarrow> cm_styles this1 \<noteq> Some sts);
          this2 = (if styles_updated then this1\<lparr>cm_styles := opt_styles opts\<rparr> else this1)
      in if cm_count this2 \<noteq> Some (opt_count opts) \<or> styles_updated then
           (let this3 = this2\<lparr>cm_count := Some (opt_count opts)\<rparr>;
                index = L_digits_loop (opt_count opts) 0
            in case cm_styles this3 of
                 None \<Rightarrow> Thrown TypeError this3
               | Some sts \<Rightarrow>
                   (let index = (if length sts < index then length sts else index)
                    in if 1 \<le> index \<and> index - 1 < length sts then
                         Returned () (L_reset_padding opts
                           (this3\<lparr>cm_style := Some (sts ! (index - 1)), cm_index := Some index\<rparr>))
                       else Thrown TypeError this3))
         else Returned () (L_reset_padding opts this2))"

text \<open>
  \<^verbatim>\<open>initialize: function(cluster, styles)\<close>: the badge reads \<^verbatim>\<open>cluster.getCenter()\<close>,
  \<^verbatim>\<open>cluster.getTotalMarkers()\<close> and \<^verbatim>\<open>cluster._clusterer.getGridSize() / 2\<close>.
\<close>

definition L_ClusterMarker_initialize ::
    "cid \<Rightarrow> style list \<Rightarrow> clusterer \<Rightarrow> (unit, cluster_marker) outcome" where
  "L_ClusterMarker_initialize cluster sts s =
     L_ClusterMarker_reset
       \<lparr>opt_latLng = center (heap s cluster), opt_count = length (markers (heap s cluster)),
        opt_styles = Some sts, opt_padding = Some (gridSize s / 2)\<rparr>
       ClusterMarker_blank"

definition L_ClusterMarker_hide :: "cluster_marker \<Rightarrow> cluster_marker" where
  "L_ClusterMarker_hide this = this\<lparr>hidden := True\<rparr>"

definition L_ClusterMarker_show :: "cluster_marker \<Rightarrow> cluster_marker" where
  "L_ClusterMarker_show this = this\<lparr>hidden := False\<rparr>"

definition L_ClusterMarker_isHidden :: "cluster_marker \<Rightarrow> bool" where
  "L_ClusterMarker_isHidden this = hidden this"

section \<open>L.Marker.Cluster\<close>

text \<open>\<^verbatim>\<open>initialize: function (clusterer)\<close> of a cluster.\<close>

definition L_Cluster_new :: "host_map \<Rightarrow> cluster" where
  "L_Cluster_new m = \<lparr>center = None, markers = [], clusterMarker = None, zoom = getZoom m\<rparr>"

definition L_Cluster_getMarkers :: "cid \<Rightarrow> clusterer \<Rightarrow> marker_ref list" where
  "L_Cluster_getMarkers this s = markers (heap s this)"

definition L_Cluster_getCenter :: "cid \<Rightarrow> clusterer \<Rightarrow> latlng option" where
  "L_Cluster_getCenter this s = center (heap s this)"

definition L_Cluster_getCurrentZoom :: "cid \<Rightarrow> clusterer \<Rightarrow> int" where
  "L_Cluster_getCurrentZoom this s = zoom (heap s this)"

definition L_Cluster_getTotalMarkers :: "cid \<Rightarrow> clusterer \<Rightarrow> nat" where
  "L_Cluster_getTotalMarkers this s = length (markers (heap s this))"

text \<open>\<^verbatim>\<open>isInBounds: function (bounds)\<close>\<close>

definition L_Cluster_isInBounds :: "cid \<Rightarrow> bounds option \<Rightarrow> clusterer \<Rightarrow> bool" where
  "L_Cluster_isInBounds this bounds s =
     (case center (heap s this) of
        None \<Rightarrow> False
      | Some c \<Rightarrow>
          (let bounds = (case bounds of None \<Rightarrow> getBounds (hostMap s) | Some b \<Rightarrow> b);
               sw = latLngToLayerPoint (hostMap s) (getSouthWest bounds);
               ne = latLngToLayerPoint (hostMap s) (getNorthEast bounds);
               centerxy = latLngToLayerPoint (hostMap s) c;
               g = gridSize s;
               g = (if zoom (heap s this) \<noteq> getZoom (hostMap s)
                    then Math_pow2 (getZoom (hostMap s) - zoom (heap s this)) * g
                    else g);
               inViewport = \<not> (pt_x ne \<noteq> pt_x sw \<and>
                                 (pt_x centerxy + g < pt_x sw \<or> pt_x centerxy - g > pt_x ne));
               inViewport = (if inViewport \<and> (pt_y centerxy + g < pt_y ne \<or>
                                               pt_y centerxy - g > pt_y sw)
                             then False else inViewport)
           in inViewport))"

text \<open>\<^verbatim>\<open>addMarker: function (marker)\<close> of a cluster.\<close>

definition L_Cluster_addMarker :: "cid \<Rightarrow> marker_ref \<Rightarrow> clusterer \<Rightarrow> clusterer" where
  "L_Cluster_addMarker this ref s =
     upd_cluster this
       (\<lambda>c. c\<lparr>center := (case center c of
                            None \<Rightarrow> Some (getLatLng (marker ref))
                          | Some l \<Rightarrow> Some l),
              markers := markers c @ [ref]\<rparr>) s"

text \<open>The scan of \<^verbatim>\<open>removeMarker\<close> of a cluster, and the method.\<close>

fun L_removeMarker_scan :: "marker \<Rightarrow> marker_ref list \<Rightarrow> (marker_ref \<times> marker_ref list) option" where
  "L_removeMarker_scan m [] = None"
| "L_removeMarker_scan m (r # rs) =
     (if m = marker r then Some (r, rs)
      else (case L_removeMarker_scan m rs of
              None \<Rightarrow> None
            | Some (r', rs') \<Rightarrow> Some (r', r # rs')))"

definition L_Cluster_removeMarker :: "cid \<Rightarrow> marker \<Rightarrow> clusterer \<Rightarrow> bool \<times> clusterer" where
  "L_Cluster_removeMarker this m s =
     (case L_removeMarker_scan m (markers (heap s this)) of
        None \<Rightarrow> (False, s)
      | Some (r, rest) \<Rightarrow>
          (let s1 = (if isAdded r then upd_map (removeLayer (MarkerLayer (marker r))) s else s)
           in (True, upd_cluster this (\<lambda>c. c\<lparr>markers := rest\<rparr>) s1)))"

text \<open>The loop \<^verbatim>\<open>if (this._markers[i].isAdded) this._map.removeLayer(this._markers[i].marker)\<close>.\<close>

fun L_removeAdded :: "marker_ref list \<Rightarrow> host_map \<Rightarrow> host_map" where
  "L_removeAdded [] m = m"
| "L_removeAdded (r # rs) m =
     L_removeAdded rs (if isAdded r then removeLayer (MarkerLayer (marker r)) m else m)"

text \<open>The loop \<^verbatim>\<open>this._map.addLayer(this._markers[i].marker); this._markers[i].isAdded = true\<close>.\<close>

fun L_addAll :: "marker_ref list \<Rightarrow> host_map \<Rightarrow> host_map" where
  "L_addAll [] m = m"
| "L_addAll (r # rs) m = L_addAll rs (addLayer (MarkerLayer (marker r)) m)"

definition L_Cluster_clearMarkers :: "cid \<Rightarrow> clusterer \<Rightarrow> clusterer" where
  "L_Cluster_clearMarkers this s =
     (let s1 = (case clusterMarker (heap s this) of
                  None \<Rightarrow> s
                | Some b \<Rightarrow> upd_map (removeLayer (BadgeLayer this)) s);
          s2 = upd_map (L_removeAdded (markers (heap s1 this))) s1
      in upd_cluster this (\<lambda>c. c\<lparr>markers := []\<rparr>) s2)"

text \<open>\<^verbatim>\<open>_redraw: function (isForce)\<close>\<close>

definition L_Cluster_redraw :: "cid \<Rightarrow> bool \<Rightarrow> clusterer \<Rightarrow> (unit, clusterer) outcome" where
  "L_Cluster_redraw this isForce s =
     (if \<not> isForce \<and> \<not> L_Cluster_isInBounds this None s then Returned () s
      else
        (let s1 = upd_cluster this (\<lambda>c. c\<lparr>zoom := getZoom (hostMap s)\<rparr>) s;
             mz = (case maxZoom s1 of None \<Rightarrow> getMaxZoom (hostMap s1) | Some z \<Rightarrow> z)
         in if zoom (heap s1 this) \<ge> mz \<or> L_Cluster_getTotalMarkers this s1 = 1 then
              (let s2 = upd_map (L_addAll (markers (heap s1 this))) s1;
                   s3 = upd_cluster this
                          (\<lambda>c. c\<lparr>markers := map (\<lambda>r. r\<lparr>isAdded := True\<rparr>) (markers c)\<rparr>) s2
               in Returned ()
                    (upd_cluster this
                       (\<lambda>c. c\<lparr>clusterMarker := map_option L_ClusterMarker_hide (clusterMarker c)\<rparr>)
                       s3))
            else
              (let s2 = upd_map (L_removeAdded (markers (heap s1 this))) s1
               in case clusterMarker (heap s2 this) of
                    None \<Rightarrow>
                      (case L_ClusterMarker_initialize this (styles s2) s2 of
                         Thrown e b \<Rightarrow> Thrown e s2
                       | Returned u b \<Rightarrow>
                           Returned ()
                             (upd_map (addLayer (BadgeLayer this))
                                (upd_cluster this (\<lambda>c. c\<lparr>clusterMarker := Some b\<rparr>) s2)))
                  | Some b \<Rightarrow>
                      (case L_ClusterMarker_reset
                              \<lparr>opt_latLng = None, opt_count = L_Cluster_getTotalMarkers this s2,
                               opt_styles = None, opt_padding = None\<rparr> b of
                         Thrown e b' \<Rightarrow>
                           Thrown e (upd_cluster this (\<lambda>c. c\<lparr>clusterMarker := Some b'\<rparr>) s2)
                       | Returned u b' \<Rightarrow>
                           Returned ()
                             (upd_cluster this
                                (\<lambda>c. c\<lparr>clusterMarker :=
                                         Some (if L_ClusterMarker_isHidden b'
                                               then L_ClusterMarker_show b' else b')\<rparr>) s2)))))"

section \<open>L.Marker.Clusterer\<close>

definition L_isMarkerInViewport :: "marker \<Rightarrow> clusterer \<Rightarrow> bool" where
  "L_isMarkerInViewport m s = contains (getBounds (hostMap s)) (getLatLng m)"

text \<open>The search loop of \<^verbatim>\<open>addMarker\<close>, given the candidates last first.\<close>

fun L_addMarker_scan :: "point \<Rightarrow> cid list \<Rightarrow> clusterer \<Rightarrow> cid option" where
  "L_addMarker_scan pos [] s = None"
| "L_addMarker_scan pos (cluster # rest) s =
     (case L_Cluster_getCenter cluster s of
        None \<Rightarrow> L_addMarker_scan pos rest s
      | Some c \<Rightarrow>
          (let ctr = latLngToLayerPoint (hostMap s) c
           in if pt_x pos \<ge> pt_x ctr - gridSize s \<and> pt_x pos \<le> pt_x ctr + gridSize s \<and>
                 pt_y pos \<ge> pt_y ctr - gridSize s \<and> pt_y pos \<le> pt_y ctr + gridSize s
              then Some cluster
              else L_addMarker_scan pos rest s))"

text \<open>\<^verbatim>\<open>addMarker: function (marker, opt_isNodraw, opt_isAdded, opt_clusters, opt_isNoCheck)\<close>\<close>

definition L_addMarker ::
    "marker \<Rightarrow> bool \<Rightarrow> bool option \<Rightarrow> cid list option \<Rightarrow> bool \<Rightarrow> clusterer
      \<Rightarrow> (cid list option, clusterer) outcome" where
  "L_addMarker m opt_isNodraw opt_isAdded opt_clusters opt_isNoCheck s =
     (if \<not> opt_isNoCheck \<and> \<not> L_isMarkerInViewport m s then
        Returned opt_clusters (s\<lparr>leftMarkers := leftMarkers s @ [m]\<rparr>)
      else
        (let added = (case opt_isAdded of None \<Rightarrow> False | Some b \<Rightarrow> b);
             cands = (case opt_clusters of None \<Rightarrow> clusters s | Some cs \<Rightarrow> cs);
             pos = latLngToLayerPoint (hostMap s) (getLatLng m);
             ref = \<lparr>isAdded = added, marker = m\<rparr>
         in case L_addMarker_scan pos (rev cands) s of
              Some cluster \<Rightarrow>
                (let s1 = L_Cluster_addMarker cluster ref s
                 in if \<not> opt_isNodraw then
                      (case L_Cluster_redraw cluster False s1 of
                         Thrown e s2 \<Rightarrow> Thrown e s2
                       | Returned u s2 \<Rightarrow> Returned opt_clusters s2)
                    else Returned opt_clusters s1)
            | None \<Rightarrow>
                (let cluster = next_cid s;
                     s0 = s\<lparr>heap := (heap s)(cluster := L_Cluster_new (hostMap s)),
                            next_cid := Suc (next_cid s)\<rparr>;
                     s1 = L_Cluster_addMarker cluster ref s0
                 in case (if \<not> opt_isNodraw then L_Cluster_redraw cluster False s1
                          else Returned () s1) of
                      Thrown e s2 \<Rightarrow> Thrown e s2
                    | Returned u s2 \<Rightarrow>
                        (case opt_clusters of
                           None \<Rightarrow> Returned None (s2\<lparr>clusters := clusters s2 @ [cluster]\<rparr>)
                         | Some cs \<Rightarrow>
                             Returned (Some (cs @ [cluster]))
                               (s2\<lparr>clusters := clusters s2 @ [cluster]\<rparr>)))))"

text \<open>
  \<^verbatim>\<open>this._clusters[i].remove(marker)\<close>: \<^verbatim>\<open>L.Marker.Cluster\<close> extends \<^verbatim>\<open>L.Class\<close> with
  \<^verbatim>\<open>initialize\<close>, \<^verbatim>\<open>getMarkers\<close>, \<^verbatim>\<open>isInBounds\<close>, \<^verbatim>\<open>getCenter\<close>, \<^verbatim>\<open>addMarker\<close>, \<^verbatim>\<open>removeMarker\<close>,
  \<^verbatim>\<open>getCurrentZoom\<close>, \<^verbatim>\<open>_redraw\<close>, \<^verbatim>\<open>clearMarkers\<close> and \<^verbatim>\<open>getTotalMarkers\<close>; there is no \<^verbatim>\<open>remove\<close>,
  and the call raises TypeError.
\<close>

definition L_Cluster_remove :: "cid \<Rightarrow> marker \<Rightarrow> clusterer \<Rightarrow> (bool, clusterer) outcome" where
  "L_Cluster_remove this m s = Thrown TypeError s"

text \<open>\<^verbatim>\<open>removeMarker: function (marker)\<close> of the clusterer.\<close>

fun L_removeMarker_loop :: "marker \<Rightarrow> cid list \<Rightarrow> clusterer \<Rightarrow> (unit, clusterer) outcome" where
  "L_removeMarker_loop m [] s = Returned () s"
| "L_removeMarker_loop m (c # cs) s =
     (case L_Cluster_remove c m s of
        Thrown e s' \<Rightarrow> Thrown e s'
      | Returned found s' \<Rightarrow>
          if found then L_Cluster_redraw c False s' else L_removeMarker_loop m cs s')"

definition L_removeMarker :: "marker \<Rightarrow> clusterer \<Rightarrow> (unit, clusterer) outcome" where
  "L_removeMarker m s = L_removeMarker_loop m (clusters s) s"

definition L_getClustersInViewport :: "clusterer \<Rightarrow> cid list" where
  "L_getClustersInViewport s =
     filter (\<lambda>c. L_Cluster_isInBounds c (Some (getBounds (hostMap s))) s) (clusters s)"

fun L_redraw_loop :: "cid list \<Rightarrow> clusterer \<Rightarrow> (unit, clusterer) outcome" where
  "L_redraw_loop [] s = Returned () s"
| "L_redraw_loop (c # cs) s =
     (case L_Cluster_redraw c True s of
        Thrown e s' \<Rightarrow> Thrown e s'
      | Returned u s' \<Rightarrow> L_redraw_loop cs s')"

text \<open>\<^verbatim>\<open>redraw: function ()\<close> of the clusterer.\<close>

definition L_redraw :: "clusterer \<Rightarrow> (unit, clusterer) outcome" where
  "L_redraw s = L_redraw_loop (L_getClustersInViewport s) s"

definition L_getTotalMarkers :: "clusterer \<Rightarrow> nat" where
  "L_getTotalMarkers s = foldl (\<lambda>result c. result + L_Cluster_getTotalMarkers c s) 0 (clusters s)"

definition L_getTotalClusters :: "clusterer \<Rightarrow> nat" where
  "L_getTotalClusters s = length (clusters s)"

text \<open>
  \<^verbatim>\<open>for (j = 0; j < this._clusters.length; ++j) if (cluster === this._clusters[j]) this._clusters.splice(j, 1);\<close>
\<close>

fun L_splice_cluster :: "cid \<Rightarrow> cid list \<Rightarrow> cid list" where
  "L_splice_cluster cluster [] = []"
| "L_splice_cluster cluster [a] = (if cluster = a then [] else [a])"
| "L_splice_cluster cluster (a # b # rest) =
     (if cluster = a then b # L_splice_cluster cluster rest
      else a # L_splice_cluster cluster (b # rest))"

text \<open>The first loop of \<^verbatim>\<open>resetViewport\<close>.\<close>

fun L_resetViewport_loop ::
    "cid list \<Rightarrow> marker_ref list \<Rightarrow> clusterer \<Rightarrow> marker_ref list \<times> clusterer" where
  "L_resetViewport_loop [] tmpMarkers s = (tmpMarkers, s)"
| "L_resetViewport_loop (cluster # rest) tmpMarkers s =
     (let oldZoom = L_Cluster_getCurrentZoom cluster s;
          curZoom = getZoom (hostMap s)
      in if curZoom \<noteq> oldZoom then
           (let mks = L_Cluster_getMarkers cluster s;
                tmpMarkers = tmpMarkers @ map (\<lambda>r. \<lparr>isAdded = False, marker = marker r\<rparr>) mks;
                s1 = L_Cluster_clearMarkers cluster s;
                s2 = s1\<lparr>clusters := L_splice_cluster cluster (clusters s1)\<rparr>
            in L_resetViewport_loop rest tmpMarkers s2)
         else L_resetViewport_loop rest tmpMarkers s)"

text \<open>
  \<^verbatim>\<open>_addLeftMarkers\<close>. Its loop counter is the global variable \<^verbatim>\<open>i\<close>, which nothing else
  touches while the loop runs.
\<close>

fun L_addLeftMarkers_loop :: "marker list \<Rightarrow> clusterer \<Rightarrow> (unit, clusterer) outcome" where
  "L_addLeftMarkers_loop [] s = Returned () s"
| "L_addLeftMarkers_loop (m # ms) s =
     (case L_addMarker m True None None True s of
        Thrown e s' \<Rightarrow> Thrown e s'
      | Returned u s' \<Rightarrow> L_addLeftMarkers_loop ms s')"

definition L_addLeftMarkers :: "clusterer \<Rightarrow> (unit, clusterer) outcome" where
  "L_addLeftMarkers s =
     (if length (leftMarkers s) = 0 then Returned () s
      else
        (case L_addLeftMarkers_loop (leftMarkers s) s of
           Thrown e s' \<Rightarrow> Thrown e s'
         | Returned u s' \<Rightarrow> Returned () (s'\<lparr>leftMarkers := []\<rparr>)))"

text \<open>\<^verbatim>\<open>_reAddMarkers\<close>, its loop given the collected entries last first.\<close>

fun L_reAddMarkers_loop ::
    "marker_ref list \<Rightarrow> cid list option \<Rightarrow> clusterer \<Rightarrow> (cid list option, clusterer) outcome" where
  "L_reAddMarkers_loop [] cl s = Returned cl s"
| "L_reAddMarkers_loop (r # rs) cl s =
     (case L_addMarker (marker r) True (Some (isAdded r)) cl True s of
        Thrown e s' \<Rightarrow> Thrown e s'
      | Returned cl' s' \<Rightarrow> L_reAddMarkers_loop rs cl' s')"

definition L_reAddMarkers :: "marker_ref list \<Rightarrow> clusterer \<Rightarrow> (unit, clusterer) outcome" where
  "L_reAddMarkers mks s =
     (case L_reAddMarkers_loop (rev mks) (Some []) s of
        Thrown e s' \<Rightarrow> Thrown e s'
      | Returned cl s' \<Rightarrow> L_addLeftMarkers s')"

definition L_resetViewport :: "clusterer \<Rightarrow> (unit, clusterer) outcome" where
  "L_resetViewport s =
     (case L_resetViewport_loop (L_getClustersInViewport s) [] s of
        (tmpMarkers, s1) \<Rightarrow>
          (case L_reAddMarkers tmpMarkers s1 of
             Thrown e s2 \<Rightarrow> Thrown e s2
           | Returned u s2 \<Rightarrow> L_redraw s2))"

fun L_addMarkers_loop :: "marker list \<Rightarrow> clusterer \<Rightarrow> (unit, clusterer) outcome" where
  "L_addMarkers_loop [] s = Returned () s"
| "L_addMarkers_loop (m # ms) s =
     (case L_addMarker m True None None False s of
        Thrown e s' \<Rightarrow> Thrown e s'
      | Returned u s' \<Rightarrow> L_addMarkers_loop ms s')"

definition L_addMarkers :: "marker list \<Rightarrow> clusterer \<Rightarrow> (unit, clusterer) outcome" where
  "L_addMarkers ms s =
     (case L_addMarkers_loop ms s of
        Thrown e s' \<Rightarrow> Thrown e s'
      | Returned u s' \<Rightarrow> L_redraw s')"

text \<open>\<^verbatim>\<open>clearMarkers: function ()\<close> of the clusterer.\<close>

definition L_clearMarkers :: "clusterer \<Rightarrow> clusterer" where
  "L_clearMarkers s = (fold L_Cluster_clearMarkers (clusters s) s)\<lparr>clusters := [], leftMarkers := []\<rparr>"

text \<open>\<^verbatim>\<open>initialize: function (map, opt_markers, opt_opts)\<close> of the clusterer.\<close>

definition L_default_styles :: "style list" where
  "L_default_styles =
     map (\<lambda>(i, sz).
            \<lparr>url = ''http://gmaps-utility-library.googlecode.com/svn/trunk/markerclusterer/images/m''
                     @ i @ ''.png'',
             height = sz, width = sz, opt_textColor = None, opt_anchor = None\<rparr>)
       [(''1'', 53), (''2'', 56), (''3'', 66), (''4'', 78), (''5'', 90)]"

definition L_Marker_Clusterer ::
    "host_map \<Rightarrow> marker list option \<Rightarrow> options option \<Rightarrow> (unit, clusterer) outcome" where
  "L_Marker_Clusterer m opt_markers opt_opts =
     (let s = \<lparr>clusters = [], leftMarkers = [], gridSize = 40, maxZoom = None,
                styles = L_default_styles, hostMap = m, heap = (\<lambda>_. L_Cluster_new m), next_cid = 0\<rparr>;
          s = (case opt_opts of
                 None \<Rightarrow> s
               | Some opts \<Rightarrow>
                   (let s = (case opts_gridSize opts of
                               None \<Rightarrow> s
                             | Some g \<Rightarrow> if g > 0 then s\<lparr>gridSize := g\<rparr> else s);
                        s = (case opts_maxZoom opts of
                               None \<Rightarrow> s
                             | Some z \<Rightarrow> s\<lparr>maxZoom := Some z\<rparr>)
                    in case opts_styles opts of
                         None \<Rightarrow> s
                       | Some sts \<Rightarrow> if length sts \<noteq> 0 then s\<lparr>styles := sts\<rparr> else s))
      in case opt_markers of
           None \<Rightarrow> Returned () s
         | Some ms \<Rightarrow> L_addMarkers ms s)"

section \<open>Runs of the public operations of part 000\<close>

fun L_step :: "op \<Rightarrow> clusterer \<Rightarrow> clusterer" where
  "L_step (AddMarker m opt_isNodraw opt_isAdded opt_isNoCheck) s =
     state_of (L_addMarker m opt_isNodraw opt_isAdded None opt_isNoCheck s)"
| "L_step (AddMarkers ms) s = state_of (L_addMarkers ms s)"
| "L_step (RemoveMarker m) s = state_of (L_removeMarker m s)"
| "L_step ResetViewport s = state_of (L_resetViewport s)"
| "L_step ClearMarkers s = L_clearMarkers s"
| "L_step (HostView z mz b p) s =
     s\<lparr>hostMap := (hostMap s)\<lparr>getZoom := z, getMaxZoom := mz, getBounds := b,
                                 latLngToLayerPoint := p\<rparr>\<rparr>"

definition L_exec :: "op list \<Rightarrow> clusterer \<Rightarrow> clusterer" where
  "L_exec ops s = fold L_step ops s"

chapter \<open>Calls with a candidate array, and attached badges\<close>

section \<open>Calls of the public interface\<close>

text \<open>
  \<^verbatim>\<open>addMarker\<close> is public with all of its five parameters. \<open>AddMarker\<close> of \<open>op\<close> is the call
  that leaves \<^verbatim>\<open>opt_clusters\<close> out. A caller may also pass an array of clusters of its own:
  \<^verbatim>\<open>addMarker\<close> looks for a cluster in that array only, and pushes a cluster it creates on
  it. The array stays with the caller, who may pass it again later; the call
  \<open>AddMarkerIn\<close> carries the array as it is when the call is made.
\<close>

datatype call = Op op | AddMarkerIn marker bool "bool option" "cid list" bool

fun call_step :: "call \<Rightarrow> clusterer \<Rightarrow> clusterer" where
  "call_step (Op x) s = step x s"
| "call_step (AddMarkerIn m opt_isNodraw opt_isAdded opt_clusters opt_isNoCheck) s =
     state_of (addMarker m opt_isNodraw opt_isAdded (Some opt_clusters) opt_isNoCheck s)"

definition run :: "call list \<Rightarrow> clusterer \<Rightarrow> clusterer" where
  "run calls s = fold call_step calls s"

text \<open>The value a call returns, if it returns.\<close>

fun value_of :: "('r, 's) outcome \<Rightarrow> 'r option" where
  "value_of (Returned r s) = Some r"
| "value_of (Thrown e s) = None"

text \<open>The markers a run of calls registers, in order.\<close>

fun called :: "call list \<Rightarrow> marker list \<Rightarrow> marker list" where
  "called [] acc = acc"
| "called (Op x # calls) acc = called calls (registered [x] acc)"
| "called (AddMarkerIn m opt_isNodraw opt_isAdded opt_clusters opt_isNoCheck # calls) acc =
     called calls (acc @ [m])"

text \<open>
  A run in which every candidate array holds, when it is passed, only clusters that are in
  \<^verbatim>\<open>clusters_\<close> at that moment.
\<close>

fun live_candidates :: "call list \<Rightarrow> clusterer \<Rightarrow> bool" where
  "live_candidates [] s = True"
| "live_candidates (c # calls) s =
     ((case c of
         Op x \<Rightarrow> True
       | AddMarkerIn m opt_isNodraw opt_isAdded opt_clusters opt_isNoCheck \<Rightarrow>
           list_all (\<lambda>c. c \<in> set (clusters s)) opt_clusters) \<and>
      live_candidates calls (call_step c s))"

text \<open>
  A caller keeps the array \<open>[]\<close> over a zoom of the map: \<^verbatim>\<open>addMarker(m1, false, null, cs)\<close>
  leaves the new cluster 0 in \<open>cs\<close>, the map zooms from 10 to 12, \<^verbatim>\<open>resetViewport\<close> dissolves
  cluster 0, and \<^verbatim>\<open>addMarker(m2, false, null, cs)\<close> passes the array again.
\<close>

definition stale_calls :: "call list" where
  "stale_calls =
     [AddMarkerIn m1 False None [] False,
      Op (HostView 12 18 scenario_bounds scenario_project),
      Op ResetViewport,
      AddMarkerIn m2 False None [0] False]"

text \<open>
  A run whose candidate arrays are live: the caller's array receives cluster 0 and is
  passed again at once; the other markers are added without an array.
\<close>

definition live_calls :: "call list" where
  "live_calls =
     [AddMarkerIn m1 False None [] False,
      AddMarkerIn m2 False None [0] False,
      Op (AddMarkers [m3, m4]),
      Op (RemoveMarker m1),
      Op (HostView 12 18 scenario_bounds scenario_project),
      Op ResetViewport]"

section \<open>Attached badges\<close>

text \<open>A badge the cluster has is attached to the map.\<close>

definition badge_attached :: "cid \<Rightarrow> clusterer \<Rightarrow> bool" where
  "badge_attached c s =
     (clusterMarker (heap s c) = None \<or> BadgeLayer c \<in> layers (hostMap s))"

definition badges_attached :: "clusterer \<Rightarrow> bool" where
  "badges_attached s = list_all (\<lambda>c. badge_attached c s) (clusters s)"

text \<open>Two more markers of the scenario, at the pixels (5,5) and (5,-5).\<close>

definition m5 :: marker where "m5 = Marker 5 \<lparr>lat = - 5, lng = 5\<rparr>"
definition m6 :: marker where "m6 = Marker 6 \<lparr>lat = 5, lng = 5\<rparr>"

text \<open>
  A dissolved cluster filled again through a caller's array: cluster 0 gets \<open>m1\<close> and \<open>m2\<close>
  and with them a badge, the map zooms, \<^verbatim>\<open>resetViewport\<close> dissolves cluster 0, which takes
  its badge off the map, and the caller adds \<open>m5\<close> and \<open>m6\<close> with the same array, the second
  without a redraw.
\<close>

definition refill_calls :: "call list" where
  "refill_calls =
     [AddMarkerIn m1 False None [] False,
      AddMarkerIn m2 False None [0] False,
      Op (HostView 12 18 scenario_bounds scenario_project),
      Op ResetViewport,
      AddMarkerIn m5 False None [0] False,
      AddMarkerIn m6 True None [0] False]"

definition scenario_refilled :: clusterer where
  "scenario_refilled = run refill_calls scenario_clusterer"

text \<open>
  A cluster of \<^verbatim>\<open>clusters_\<close> that has a badge and gets a third member without a redraw.
\<close>

definition scenario_three :: clusterer where
  "scenario_three =
     exec [AddMarker m1 False None False, AddMarker m2 False None False,
           AddMarker m5 True None False] scenario_clusterer"

section \<open>Field lemmas\<close>

lemma upd_cluster_fields [simp]:
  "clusters (upd_cluster c f s) = clusters s"
  "leftMarkers (upd_cluster c f s) = leftMarkers s"
  "gridSize (upd_cluster c f s) = gridSize s"
  "maxZoom (upd_cluster c f s) = maxZoom s"
  "styles (upd_cluster c f s) = styles s"
  "hostMap (upd_cluster c f s) = hostMap s"
  "next_cid (upd_cluster c f s) = next_cid s"
  "heap (upd_cluster c f s) = (heap s)(c := f (heap s c))"
  by (simp_all add: upd_cluster_def)

lemma upd_map_fields [simp]:
  "clusters (upd_map g s) = clusters s"
  "leftMarkers (upd_map g s) = leftMarkers s"
  "gridSize (upd_map g s) = gridSize s"
  "maxZoom (upd_map g s) = maxZoom s"
  "styles (upd_map g s) = styles s"
  "hostMap (upd_map g s) = g (hostMap s)"
  "next_cid (upd_map g s) = next_cid s"
  "heap (upd_map g s) = heap s"
  by (simp_all add: upd_map_def)

lemma addLayer_fields [simp]:
  "getZoom (addLayer l m) = getZoom m"
  "getMaxZoom (addLayer l m) = getMaxZoom m"
  "getBounds (addLayer l m) = getBounds m"
  "latLngToLayerPoint (addLayer l m) = latLngToLayerPoint m"
  "layers (addLayer l m) = insert l (layers m)"
  by (simp_all add: addLayer_def)

lemma removeLayer_fields [simp]:
  "getZoom (removeLayer l m) = getZoom m"
  "getMaxZoom (removeLayer l m) = getMaxZoom m"
  "getBounds (removeLayer l m) = getBounds m"
  "latLngToLayerPoint (removeLayer l m) = latLngToLayerPoint m"
  "layers (removeLayer l m) = layers m - {l}"
  by (simp_all add: removeLayer_def)

lemma removeAdded_fields [simp]:
  "getZoom (removeAdded rs m) = getZoom m"
  "getMaxZoom (removeAdded rs m) = getMaxZoom m"
  "getBounds (removeAdded rs m) = getBounds m"
  "latLngToLayerPoint (removeAdded rs m) = latLngToLayerPoint m"
  by (induction rs arbitrary: m; simp)+

lemma removeAdded_layers:
  "layers (removeAdded rs m) = layers m - {MarkerLayer (marker r) | r. r \<in> set rs \<and> isAdded r}"
  by (induction rs arbitrary: m) auto

lemma addAll_fields [simp]:
  "getZoom (addAll rs m) = getZoom m"
  "getMaxZoom (addAll rs m) = getMaxZoom m"
  "getBounds (addAll rs m) = getBounds m"
  "latLngToLayerPoint (addAll rs m) = latLngToLayerPoint m"
  by (induction rs arbitrary: m; simp)+

lemma addAll_layers:
  "layers (addAll rs m) = layers m \<union> {MarkerLayer (marker r) | r. r \<in> set rs}"
  by (induction rs arbitrary: m) auto

section \<open>The digit loop\<close>

lemma digits_loop_0 [simp]: "digits_loop 0 k = k"
  by (simp add: digits_loop.simps)

lemma digits_loop_step: "n \<noteq> 0 \<Longrightarrow> digits_loop n k = digits_loop (n div 10) (Suc k)"
  by (subst digits_loop.simps) simp

lemma digits_loop_acc: "digits_loop n k = k + digits_loop n 0"
proof (induction n arbitrary: k rule: less_induct)
  case (less n)
  show ?case
  proof (cases "n = 0")
    case True
    then show ?thesis by simp
  next
    case False
    then have lt: "n div 10 < n" by simp
    have "digits_loop n k = Suc k + digits_loop (n div 10) 0"
      using digits_loop_step [OF False] less [OF lt, of "Suc k"] by simp
    moreover have "digits_loop n 0 = Suc 0 + digits_loop (n div 10) 0"
      using digits_loop_step [OF False] less [OF lt, of "Suc 0"] by simp
    ultimately show ?thesis by simp
  qed
qed

lemma digits_loop_Suc: "n \<noteq> 0 \<Longrightarrow> digits_loop n 0 = Suc (digits_loop (n div 10) 0)"
  using digits_loop_step [of n 0] digits_loop_acc [of "n div 10" "Suc 0"] by simp

lemma digits_loop_pos: "n \<noteq> 0 \<Longrightarrow> 1 \<le> digits_loop n 0"
  by (simp add: digits_loop_Suc)

lemma digits_loop_bounds:
  "n \<noteq> 0 \<Longrightarrow> 10 ^ (digits_loop n 0 - 1) \<le> n \<and> n < 10 ^ digits_loop n 0"
proof (induction n rule: less_induct)
  case (less n)
  show ?case
  proof (cases "n div 10 = 0")
    case True
    then have "n < 10" by (simp add: div_eq_0_iff)
    moreover have "digits_loop n 0 = 1"
      using less.prems True by (simp add: digits_loop_Suc)
    ultimately show ?thesis using less.prems by simp
  next
    case False
    have lt: "n div 10 < n" using less.prems by simp
    let ?d = "digits_loop (n div 10) 0"
    have ih: "10 ^ (?d - 1) \<le> n div 10 \<and> n div 10 < 10 ^ ?d"
      using less.IH [OF lt False] .
    have pos: "1 \<le> ?d" using False by (rule digits_loop_pos)
    have d: "digits_loop n 0 = Suc ?d" using less.prems by (rule digits_loop_Suc)
    have "(10::nat) ^ ?d = 10 * 10 ^ (?d - 1)"
      using pos by (cases ?d) simp_all
    moreover have "10 * (n div 10) \<le> n" by simp
    ultimately have lo: "(10::nat) ^ ?d \<le> n" using ih by linarith
    have "n < 10 * (n div 10) + 10" by presburger
    then have hi: "n < 10 * 10 ^ ?d" using ih by linarith
    show ?thesis using lo hi d by simp
  qed
qed

section \<open>The badge\<close>

lemma tier_in_range:
  "sts \<noteq> [] \<Longrightarrow> n \<noteq> 0 \<Longrightarrow>
   1 \<le> min (digits_loop n 0) (length sts) \<and> min (digits_loop n 0) (length sts) - 1 < length sts"
  using digits_loop_pos [of n] by (cases sts) auto

lemma initialize_returns:
  assumes "sts \<noteq> []" and "n \<noteq> 0"
  shows "ClusterMarker_initialize c n sts p =
           Returned ()
             \<lparr>cm_latlng = c, cm_count = Some n, cm_styles = Some sts,
              cm_style = Some (sts ! (min (digits_loop n 0) (length sts) - 1)),
              cm_index = Some (min (digits_loop n 0) (length sts)),
              cm_padding = Some p, hidden = False\<rparr>"
  using tier_in_range [OF assms]
  by (cases c)
     (auto simp: ClusterMarker_initialize_def ClusterMarker_reset_def ClusterMarker_blank_def
        reset_padding_def Let_def min_def)

lemma initialize_badge_ok:
  assumes "sts \<noteq> []" and "2 \<le> n"
  shows "\<exists>b. ClusterMarker_initialize c n sts p = Returned () b \<and> badge_ok sts b \<and>
             cm_count b = Some n \<and> \<not> hidden b"
  using initialize_returns [of sts n c p] assms by (simp add: badge_ok_def)

lemma reset_count_returns:
  assumes "badge_ok sts b" and "sts \<noteq> []" and "n \<noteq> 0"
  shows "ClusterMarker_reset \<lparr>opt_latLng = None, opt_count = n, opt_styles = None, opt_padding = None\<rparr> b =
           Returned ()
             (b\<lparr>cm_count := Some n,
                cm_style := Some (sts ! (min (digits_loop n 0) (length sts) - 1)),
                cm_index := Some (min (digits_loop n 0) (length sts))\<rparr>)"
  using tier_in_range [OF assms(2,3)] assms(1)
  by (auto simp: ClusterMarker_reset_def reset_padding_def Let_def min_def badge_ok_def
        split: option.splits)

lemma reset_count_badge_ok:
  assumes "badge_ok sts b" and "sts \<noteq> []" and "2 \<le> n"
  shows "\<exists>b'. ClusterMarker_reset \<lparr>opt_latLng = None, opt_count = n, opt_styles = None, opt_padding = None\<rparr> b = Returned () b' \<and>
              badge_ok sts b' \<and> cm_count b' = Some n \<and> hidden b' = hidden b"
  using reset_count_returns [OF assms(1,2), of n] assms by (simp add: badge_ok_def)

lemma badge_ok_hidden [simp]:
  "badge_ok sts (ClusterMarker_hide b) = badge_ok sts b"
  "badge_ok sts (ClusterMarker_show b) = badge_ok sts b"
  by (auto simp: badge_ok_def ClusterMarker_hide_def ClusterMarker_show_def split: option.splits)

section \<open>Redrawing a cluster\<close>

lemma redraw_fields [simp]:
  "clusters (state_of (Cluster_redraw c f s)) = clusters s"
  "leftMarkers (state_of (Cluster_redraw c f s)) = leftMarkers s"
  "gridSize (state_of (Cluster_redraw c f s)) = gridSize s"
  "maxZoom (state_of (Cluster_redraw c f s)) = maxZoom s"
  "styles (state_of (Cluster_redraw c f s)) = styles s"
  "next_cid (state_of (Cluster_redraw c f s)) = next_cid s"
  by (auto simp: Cluster_redraw_def Let_def split: option.splits outcome.splits)

lemma redraw_view [simp]:
  "getZoom (hostMap (state_of (Cluster_redraw c f s))) = getZoom (hostMap s)"
  "getMaxZoom (hostMap (state_of (Cluster_redraw c f s))) = getMaxZoom (hostMap s)"
  "getBounds (hostMap (state_of (Cluster_redraw c f s))) = getBounds (hostMap s)"
  "latLngToLayerPoint (hostMap (state_of (Cluster_redraw c f s))) = latLngToLayerPoint (hostMap s)"
  by (auto simp: Cluster_redraw_def Let_def split: option.splits outcome.splits)

lemma redraw_heap_other:
  "c' \<noteq> c \<Longrightarrow> heap (state_of (Cluster_redraw c f s)) c' = heap s c'"
  by (auto simp: Cluster_redraw_def Let_def split: option.splits outcome.splits)

lemma redraw_members [simp]:
  "map marker (markers (heap (state_of (Cluster_redraw c f s)) c')) = map marker (markers (heap s c'))"
  by (auto simp: Cluster_redraw_def Let_def comp_def split: option.splits outcome.splits)

lemma redraw_center [simp]:
  "center (heap (state_of (Cluster_redraw c f s)) c') = center (heap s c')"
  by (auto simp: Cluster_redraw_def Let_def split: option.splits outcome.splits)

lemma redraw_cluster_ok:
  assumes "styles s \<noteq> []" and "cluster_ok (styles s) (heap s c)"
  shows "returned (Cluster_redraw c f s) \<and>
         cluster_ok (styles s) (heap (state_of (Cluster_redraw c f s)) c)"
proof -
  let ?n = "length (markers (heap s c))"
  have n: "?n \<noteq> 0" using assms(2) by (simp add: cluster_ok_def)
  show ?thesis
  proof (cases "?n = 1")
    case True
    then show ?thesis using assms
      by (auto simp: Cluster_redraw_def Let_def cluster_ok_def Cluster_getTotalMarkers_def
            split: option.splits)
  next
    case False
    then have n2: "2 \<le> ?n" using n by linarith
    show ?thesis
    proof (cases "clusterMarker (heap s c)")
      case None
      then show ?thesis using assms n2
        by (auto simp: Cluster_redraw_def Let_def cluster_ok_def Cluster_getTotalMarkers_def
              initialize_returns badge_ok_def)
    next
      case (Some b)
      then have b: "badge_ok (styles s) b" using assms(2) by (simp add: cluster_ok_def)
      have n0: "?n \<noteq> 0" using n by simp
      note r = reset_count_returns [OF b assms(1) n0]
      have ok: "badge_ok (styles s)
                  (b\<lparr>cm_count := Some ?n,
                     cm_style := Some (styles s ! (min (digits_loop ?n 0) (length (styles s)) - 1)),
                     cm_index := Some (min (digits_loop ?n 0) (length (styles s)))\<rparr>)"
        using b n2 by (simp add: badge_ok_def)
      show ?thesis using assms(1) n2 Some ok b
        by (auto simp: Cluster_redraw_def Let_def cluster_ok_def Cluster_getTotalMarkers_def
              r ClusterMarker_isHidden_def)
    qed
  qed
qed

section \<open>The scenario, evaluated\<close>

lemmas scenario_defs =
  scenario_map_def scenario_bounds_def scenario_project_def m1_def m2_def m3_def m4_def

lemma scenario_clusterer_eq:
  "scenario_clusterer =
     \<lparr>clusters = [], leftMarkers = [], gridSize = 40, maxZoom = Some 18,
      styles = default_styles, hostMap = scenario_map,
      heap = (\<lambda>_. Cluster_new scenario_map), next_cid = 0\<rparr>"
  by (simp add: scenario_clusterer_def LeafClusterer_def scenario_opts_def)

lemma scenario_one_eq:
  "scenario_one =
     \<lparr>clusters = [0], leftMarkers = [], gridSize = 40, maxZoom = Some 18,
      styles = default_styles,
      hostMap = scenario_map\<lparr>layers := {MarkerLayer m1}\<rparr>,
      heap = (\<lambda>_. Cluster_new scenario_map)
        (0 := \<lparr>center = Some \<lparr>lat = 0, lng = 0\<rparr>, markers = [\<lparr>isAdded = True, marker = m1\<rparr>],
               clusterMarker = None, zoom = 10\<rparr>),
      next_cid = 1\<rparr>"
  by (simp add: scenario_one_def exec_def scenario_clusterer_eq addMarker_def
        isMarkerInViewport_def scenario_defs Let_def Cluster_addMarker_def Cluster_new_def
        upd_cluster_def upd_map_def Cluster_redraw_def Cluster_isInBounds_def
        Cluster_getCenter_def Cluster_getTotalMarkers_def addLayer_def)

section \<open>Zoom-rescaled bounds test\<close>

lemma Math_pow2_powi: "Math_pow2 dl = 2 powi dl"
  by (simp add: Math_pow2_def power_int_def field_simps)

lemma half_size_code:
  "(if zoom (heap s this) \<noteq> getZoom (hostMap s)
    then Math_pow2 (getZoom (hostMap s) - zoom (heap s this)) * gridSize s
    else gridSize s) = effective_half_size this s"
  by (simp add: effective_half_size_def Math_pow2_powi mult.commute)

lemma half_size_scaled:
  "getZoom (hostMap s) = zoom (heap s this) + int k \<Longrightarrow>
   effective_half_size this s = 2 ^ k * gridSize s"
  by (simp add: effective_half_size_def mult.commute)

lemma isInBounds_Some:
  "center (heap s this) = Some c \<Longrightarrow>
   Cluster_isInBounds this bo s =
     ((pt_x (latLngToLayerPoint (hostMap s) (getNorthEast (tested_bounds bo s))) \<noteq>
       pt_x (latLngToLayerPoint (hostMap s) (getSouthWest (tested_bounds bo s))) \<longrightarrow>
         overlaps_x (latLngToLayerPoint (hostMap s) c) (effective_half_size this s)
           (latLngToLayerPoint (hostMap s) (getSouthWest (tested_bounds bo s)))
           (latLngToLayerPoint (hostMap s) (getNorthEast (tested_bounds bo s)))) \<and>
      overlaps_y (latLngToLayerPoint (hostMap s) c) (effective_half_size this s)
        (latLngToLayerPoint (hostMap s) (getSouthWest (tested_bounds bo s)))
        (latLngToLayerPoint (hostMap s) (getNorthEast (tested_bounds bo s))))"
  unfolding Cluster_isInBounds_def Let_def half_size_code tested_bounds_def [symmetric]
    overlaps_x_def overlaps_y_def
  by (auto simp: not_less)

lemma isInBounds_None: "center (heap s this) = None \<Longrightarrow> \<not> Cluster_isInBounds this bo s"
  by (simp add: Cluster_isInBounds_def)

text \<open>
  C5, as stated: whenever the center is set, \<^verbatim>\<open>isInBounds\<close> is the axis-aligned overlap
  test of the footprint with the given bounds. It is not: for bounds whose projected east
  and west edges coincide the code skips the test on the x axis
  (\<^verbatim>\<open>ne.x !== sw.x && ...\<close>). The cluster of \<open>m1\<close>, centred at the origin with half-size
  40, does not overlap bounds that lie 900 pixels to the east, and is reported in bounds.
\<close>

theorem isInBounds_not_overlap_test:
  "Cluster_isInBounds 0 (Some meridian_bounds) scenario_one \<and>
   \<not> footprint_overlaps 0 meridian_bounds scenario_one"
  by (simp add: scenario_one_eq Cluster_isInBounds_def footprint_overlaps_def overlaps_x_def
        overlaps_y_def effective_half_size_def meridian_bounds_def scenario_defs Let_def)

text \<open>
  C5, amended: \<^verbatim>\<open>isInBounds\<close> is false when the center is unset. Otherwise it is the
  axis-aligned overlap test of the cluster's square footprint with the tested bounds (the
  given ones, or the map's current ones when none are given) when the projected east and
  west edges of the bounds differ, and the overlap test on the y axis alone when they
  coincide. The half-size of the footprint is the grid size when the cluster's zoom is the
  map's, and the grid size times \<open>2 ^ (current - remembered)\<close> otherwise: \<open>2 ^ k\<close> times
  the grid size for a cluster stamped at zoom \<open>Z\<close> and tested at zoom \<open>Z + k\<close>.
\<close>

theorem isInBounds_overlap:
  "Cluster_isInBounds this bo s =
     (case center (heap s this) of
        None \<Rightarrow> False
      | Some c \<Rightarrow>
          (if pt_x (latLngToLayerPoint (hostMap s) (getNorthEast (tested_bounds bo s))) \<noteq>
              pt_x (latLngToLayerPoint (hostMap s) (getSouthWest (tested_bounds bo s)))
           then footprint_overlaps this (tested_bounds bo s) s
           else overlaps_y (latLngToLayerPoint (hostMap s) c) (effective_half_size this s)
                  (latLngToLayerPoint (hostMap s) (getSouthWest (tested_bounds bo s)))
                  (latLngToLayerPoint (hostMap s) (getNorthEast (tested_bounds bo s))))) \<and>
   (getZoom (hostMap s) = zoom (heap s this) + int k \<longrightarrow>
      effective_half_size this s = 2 ^ k * gridSize s)"
proof (cases "center (heap s this)")
  case None
  then show ?thesis using isInBounds_None [OF None] half_size_scaled by simp
next
  case (Some c)
  then show ?thesis using isInBounds_Some [OF Some] half_size_scaled
    by (simp add: footprint_overlaps_def)
qed

theorem isInBounds_overlap_witness:
  "Cluster_isInBounds 0 None (step (HostView 12 18 scenario_bounds scenario_project) scenario_one) \<and>
   getZoom (hostMap (step (HostView 12 18 scenario_bounds scenario_project) scenario_one)) =
     zoom (heap (step (HostView 12 18 scenario_bounds scenario_project) scenario_one) 0) + int 2 \<and>
   effective_half_size 0 (step (HostView 12 18 scenario_bounds scenario_project) scenario_one) = 160"
  using isInBounds_overlap
    [of 0 None "step (HostView 12 18 scenario_bounds scenario_project) scenario_one" 2]
  by (simp add: scenario_one_eq footprint_overlaps_def overlaps_x_def overlaps_y_def
        tested_bounds_def scenario_defs)

section \<open>Center and members of a cluster\<close>

lemma Cluster_addMarker_heap:
  "heap (Cluster_addMarker this r s) =
     (heap s)(this := (heap s this)
        \<lparr>center := (case center (heap s this) of
                      None \<Rightarrow> Some (getLatLng (marker r))
                    | Some l \<Rightarrow> Some l),
         markers := markers (heap s this) @ [r]\<rparr>)"
  by (simp add: Cluster_addMarker_def)

lemma Cluster_addMarker_fields [simp]:
  "clusters (Cluster_addMarker this r s) = clusters s"
  "leftMarkers (Cluster_addMarker this r s) = leftMarkers s"
  "gridSize (Cluster_addMarker this r s) = gridSize s"
  "maxZoom (Cluster_addMarker this r s) = maxZoom s"
  "styles (Cluster_addMarker this r s) = styles s"
  "hostMap (Cluster_addMarker this r s) = hostMap s"
  "next_cid (Cluster_addMarker this r s) = next_cid s"
  by (simp_all add: Cluster_addMarker_def)

lemma Cluster_clearMarkers_heap:
  "heap (Cluster_clearMarkers this s) = (heap s)(this := (heap s this)\<lparr>markers := []\<rparr>)"
  by (simp add: Cluster_clearMarkers_def Let_def split: option.splits)

lemma Cluster_clearMarkers_fields [simp]:
  "clusters (Cluster_clearMarkers this s) = clusters s"
  "leftMarkers (Cluster_clearMarkers this s) = leftMarkers s"
  "gridSize (Cluster_clearMarkers this s) = gridSize s"
  "maxZoom (Cluster_clearMarkers this s) = maxZoom s"
  "styles (Cluster_clearMarkers this s) = styles s"
  "next_cid (Cluster_clearMarkers this s) = next_cid s"
  "getZoom (hostMap (Cluster_clearMarkers this s)) = getZoom (hostMap s)"
  "getMaxZoom (hostMap (Cluster_clearMarkers this s)) = getMaxZoom (hostMap s)"
  "getBounds (hostMap (Cluster_clearMarkers this s)) = getBounds (hostMap s)"
  "latLngToLayerPoint (hostMap (Cluster_clearMarkers this s)) = latLngToLayerPoint (hostMap s)"
  by (simp_all add: Cluster_clearMarkers_def Let_def split: option.splits)

lemma removeMarker_scan_set:
  "removeMarker_scan m rs = Some (r, rest) \<Longrightarrow> set rest \<subseteq> set rs"
  by (induction rs arbitrary: rest) (auto split: if_splits option.splits)

lemma Cluster_removeMarker_heap:
  "heap (snd (Cluster_removeMarker this m s)) c =
     (if c = this then
        (case removeMarker_scan m (markers (heap s this)) of
           None \<Rightarrow> heap s this
         | Some (r, rest) \<Rightarrow> (heap s this)\<lparr>markers := rest\<rparr>)
      else heap s c)"
  by (simp add: Cluster_removeMarker_def Let_def split: option.splits)




section \<open>Removing a marker\<close>

lemma removeMarker_eq:
  "removeMarker m s = (case clusters s of [] \<Rightarrow> Returned () s | c # cs \<Rightarrow> Thrown TypeError s)"
  by (simp add: removeMarker_def Cluster_remove_def split: list.splits)

text \<open>
  C6 at a failing input: \<open>m1\<close> is the only member of the only cluster. \<^verbatim>\<open>removeMarker(m1)\<close>
  raises TypeError at \<^verbatim>\<open>clusters_[0].remove\<close> and leaves everything as it was, the
  marker still a member and still attached to the map; the method \<^verbatim>\<open>removeMarker\<close> of the
  cluster, which the call misses, finds the marker, detaches it and removes it.
\<close>

theorem removeMarker_raises:
  "removeMarker m1 scenario_one = Thrown TypeError scenario_one \<and>
   members scenario_one 0 = [m1] \<and>
   MarkerLayer m1 \<in> layers (hostMap scenario_one) \<and>
   fst (Cluster_removeMarker 0 m1 scenario_one) \<and>
   members (snd (Cluster_removeMarker 0 m1 scenario_one)) 0 = [] \<and>
   MarkerLayer m1 \<notin> layers (hostMap (snd (Cluster_removeMarker 0 m1 scenario_one)))"
  by (simp add: removeMarker_eq members_def Cluster_removeMarker_def scenario_one_eq)

section \<open>The individual branch of a redraw\<close>

lemma scenario_two_eq:
  "scenario_two =
     \<lparr>clusters = [0], leftMarkers = [], gridSize = 40, maxZoom = Some 18,
      styles = default_styles,
      hostMap = scenario_map\<lparr>layers := {MarkerLayer m1}\<rparr>,
      heap = (\<lambda>_. Cluster_new scenario_map)
        (0 := \<lparr>center = Some \<lparr>lat = 0, lng = 0\<rparr>,
               markers = [\<lparr>isAdded = True, marker = m1\<rparr>, \<lparr>isAdded = False, marker = m2\<rparr>],
               clusterMarker = None, zoom = 10\<rparr>),
      next_cid = 1\<rparr>"
proof -
  have "scenario_two = state_of (addMarker m2 True None None False scenario_one)"
    by (simp add: scenario_two_def scenario_one_def exec_def)
  then show ?thesis
    by (simp add: scenario_one_eq addMarker_def isMarkerInViewport_def scenario_defs Let_def
          Cluster_addMarker_def upd_cluster_def Cluster_getCenter_def)
qed

lemma reset_count_styled:
  assumes "cm_styles b = Some sts" and "sts \<noteq> []" and "n \<noteq> 0"
  shows "\<exists>b'. ClusterMarker_reset \<lparr>opt_latLng = None, opt_count = n, opt_styles = None, opt_padding = None\<rparr> b = Returned () b' \<and>
              cm_count b' = Some n \<and> hidden b' = hidden b \<and> cm_styles b' = Some sts"
  using tier_in_range [OF assms(2,3)] assms(1)
  by (auto simp: ClusterMarker_reset_def reset_padding_def Let_def min_def)

lemma redraw_individual:
  assumes "isForce \<or> Cluster_isInBounds this None s"
    and "length (markers (heap s this)) = 1 \<or> effective_maxZoom s \<le> getZoom (hostMap s)"
  shows "returned (Cluster_redraw this isForce s) \<and>
         drawn_individually this (state_of (Cluster_redraw this isForce s))"
  using assms
  by (auto simp: Cluster_redraw_def Let_def effective_maxZoom_def Cluster_getTotalMarkers_def
        drawn_individually_def list_all_iff addAll_layers ClusterMarker_hide_def
        split: option.splits)

section \<open>Adding a marker\<close>

lemma addMarker_scan_find: "addMarker_scan pos xs s = find (within_grid s pos) xs"
  by (induction xs)
     (auto simp: within_grid_def Cluster_getCenter_def Let_def abs_le_iff split: option.splits)

lemma addMarker_scan_in: "addMarker_scan pos xs s = Some c \<Longrightarrow> c \<in> set xs"
  by (induction xs) (auto simp: Let_def split: option.splits if_splits)

lemma addMarker_deferred:
  "\<not> nocheck \<Longrightarrow> \<not> isMarkerInViewport m s \<Longrightarrow>
   addMarker m nodraw added cl nocheck s = Returned cl (s\<lparr>leftMarkers := leftMarkers s @ [m]\<rparr>)"
  by (simp add: addMarker_def)

lemma redraw_single_returns:
  "length (markers (heap s c)) = 1 \<Longrightarrow> returned (Cluster_redraw c f s)"
  by (simp add: Cluster_redraw_def Let_def Cluster_getTotalMarkers_def)

text \<open>The state in which a marker, placed in the cluster \<open>c\<close>, leaves \<^verbatim>\<open>addMarker\<close>.\<close>

lemma addMarker_joined:
  assumes "nocheck \<or> isMarkerInViewport m s"
    and "addMarker_scan (latLngToLayerPoint (hostMap s) (getLatLng m))
           (rev (case cl of None \<Rightarrow> clusters s | Some cs \<Rightarrow> cs)) s = Some c"
  shows "addMarker m nodraw added cl nocheck s =
           (if nodraw
            then Returned cl
                   (Cluster_addMarker c
                      \<lparr>isAdded = (case added of None \<Rightarrow> False | Some b \<Rightarrow> b), marker = m\<rparr> s)
            else (case Cluster_redraw c False
                         (Cluster_addMarker c
                            \<lparr>isAdded = (case added of None \<Rightarrow> False | Some b \<Rightarrow> b), marker = m\<rparr> s) of
                    Thrown e s2 \<Rightarrow> Thrown e s2
                  | Returned u s2 \<Rightarrow> Returned cl s2))"
  using assms by (auto simp: addMarker_def Let_def)

lemma addMarker_created:
  assumes "nocheck \<or> isMarkerInViewport m s"
    and "addMarker_scan (latLngToLayerPoint (hostMap s) (getLatLng m))
           (rev (case cl of None \<Rightarrow> clusters s | Some cs \<Rightarrow> cs)) s = None"
  shows "addMarker m nodraw added cl nocheck s =
           Returned (map_option (\<lambda>cs. cs @ [next_cid s]) cl)
             ((state_of
                (if nodraw
                 then Returned ()
                        (Cluster_addMarker (next_cid s)
                           \<lparr>isAdded = (case added of None \<Rightarrow> False | Some b \<Rightarrow> b), marker = m\<rparr>
                           (s\<lparr>heap := (heap s)(next_cid s := Cluster_new (hostMap s)),
                              next_cid := Suc (next_cid s)\<rparr>))
                 else Cluster_redraw (next_cid s) False
                        (Cluster_addMarker (next_cid s)
                           \<lparr>isAdded = (case added of None \<Rightarrow> False | Some b \<Rightarrow> b), marker = m\<rparr>
                           (s\<lparr>heap := (heap s)(next_cid s := Cluster_new (hostMap s)),
                              next_cid := Suc (next_cid s)\<rparr>))))
              \<lparr>clusters := clusters s @ [next_cid s]\<rparr>)"
proof -
  let ?s1 = "Cluster_addMarker (next_cid s)
               \<lparr>isAdded = (case added of None \<Rightarrow> False | Some b \<Rightarrow> b), marker = m\<rparr>
               (s\<lparr>heap := (heap s)(next_cid s := Cluster_new (hostMap s)),
                  next_cid := Suc (next_cid s)\<rparr>)"
  have "length (markers (heap ?s1 (next_cid s))) = 1"
    by (simp add: Cluster_addMarker_heap Cluster_new_def)
  then have "returned (Cluster_redraw (next_cid s) False ?s1)"
    by (rule redraw_single_returns)
  then obtain s2 where s2: "Cluster_redraw (next_cid s) False ?s1 = Returned () s2"
    by (cases "Cluster_redraw (next_cid s) False ?s1") auto
  have cl: "clusters s2 = clusters s"
    using redraw_fields(1) [of "next_cid s" False ?s1] s2 by simp
  show ?thesis using assms s2 cl
    by (cases cl) (auto simp: addMarker_def Let_def)
qed

lemma state_of_rename [simp]:
  "state_of (case x of Returned u s2 \<Rightarrow> Returned v s2 | Thrown e s2 \<Rightarrow> Thrown e s2) = state_of x"
  by (cases x) auto

lemma returned_rename [simp]:
  "returned (case x of Returned u s2 \<Rightarrow> Returned v s2 | Thrown e s2 \<Rightarrow> Thrown e s2) = returned x"
  by (cases x) auto

lemma returned_eq: "returned x \<Longrightarrow> \<exists>v. x = Returned v (state_of x)"
  by (cases x) auto

lemma cluster_ok_addMarker:
  "case clusterMarker (heap s c) of None \<Rightarrow> True | Some b \<Rightarrow> badge_ok (styles s) b \<Longrightarrow>
   cluster_ok (styles s) (heap (Cluster_addMarker c r s) c)"
  by (simp add: cluster_ok_def Cluster_addMarker_heap)

lemma addMarker_scan_center:
  "addMarker_scan pos xs s = Some c \<Longrightarrow> center (heap s c) \<noteq> None"
  by (induction xs) (auto simp: Let_def Cluster_getCenter_def split: option.splits if_splits)

lemma addMarker_effect [consumes 0, case_names deferred joined created]:
  obtains
    (deferred) "\<not> nocheck" "\<not> isMarkerInViewport m s"
      "addMarker m nodraw added cl nocheck s = Returned cl (s\<lparr>leftMarkers := leftMarkers s @ [m]\<rparr>)"
  | (joined) c where
      "nocheck \<or> isMarkerInViewport m s"
      "addMarker_scan (latLngToLayerPoint (hostMap s) (getLatLng m))
         (rev (case cl of None \<Rightarrow> clusters s | Some cs \<Rightarrow> cs)) s = Some c"
      "c \<in> set (case cl of None \<Rightarrow> clusters s | Some cs \<Rightarrow> cs)"
      "clusters (state_of (addMarker m nodraw added cl nocheck s)) = clusters s"
      "leftMarkers (state_of (addMarker m nodraw added cl nocheck s)) = leftMarkers s"
      "next_cid (state_of (addMarker m nodraw added cl nocheck s)) = next_cid s"
      "\<And>c'. c' \<noteq> c \<Longrightarrow> heap (state_of (addMarker m nodraw added cl nocheck s)) c' = heap s c'"
      "members (state_of (addMarker m nodraw added cl nocheck s)) c = members s c @ [m]"
      "center (heap s c) \<noteq> None"
      "center (heap (state_of (addMarker m nodraw added cl nocheck s)) c) = center (heap s c)"
      "returned (addMarker m nodraw added cl nocheck s) \<Longrightarrow>
         addMarker m nodraw added cl nocheck s =
           Returned cl (state_of (addMarker m nodraw added cl nocheck s))"
      "styles s \<noteq> [] \<Longrightarrow>
       (case clusterMarker (heap s c) of None \<Rightarrow> True | Some b \<Rightarrow> badge_ok (styles s) b) \<Longrightarrow>
         returned (addMarker m nodraw added cl nocheck s) \<and>
         cluster_ok (styles s) (heap (state_of (addMarker m nodraw added cl nocheck s)) c)"
  | (created)
      "nocheck \<or> isMarkerInViewport m s"
      "addMarker_scan (latLngToLayerPoint (hostMap s) (getLatLng m))
         (rev (case cl of None \<Rightarrow> clusters s | Some cs \<Rightarrow> cs)) s = None"
      "addMarker m nodraw added cl nocheck s =
         Returned (map_option (\<lambda>cs. cs @ [next_cid s]) cl)
           (state_of (addMarker m nodraw added cl nocheck s))"
      "clusters (state_of (addMarker m nodraw added cl nocheck s)) = clusters s @ [next_cid s]"
      "leftMarkers (state_of (addMarker m nodraw added cl nocheck s)) = leftMarkers s"
      "next_cid (state_of (addMarker m nodraw added cl nocheck s)) = Suc (next_cid s)"
      "\<And>c'. c' \<noteq> next_cid s \<Longrightarrow>
         heap (state_of (addMarker m nodraw added cl nocheck s)) c' = heap s c'"
      "members (state_of (addMarker m nodraw added cl nocheck s)) (next_cid s) = [m]"
      "center (heap (state_of (addMarker m nodraw added cl nocheck s)) (next_cid s)) =
         Some (getLatLng m)"
      "styles s \<noteq> [] \<Longrightarrow>
         cluster_ok (styles s) (heap (state_of (addMarker m nodraw added cl nocheck s)) (next_cid s))"
proof -
  let ?pos = "latLngToLayerPoint (hostMap s) (getLatLng m)"
  let ?cands = "case cl of None \<Rightarrow> clusters s | Some cs \<Rightarrow> cs"
  let ?ref = "\<lparr>isAdded = (case added of None \<Rightarrow> False | Some b \<Rightarrow> b), marker = m\<rparr>"
  let ?r = "addMarker m nodraw added cl nocheck s"
  show thesis
  proof (cases "nocheck \<or> isMarkerInViewport m s")
    case False
    then show ?thesis using deferred addMarker_deferred by blast
  next
    case placed: True
    show ?thesis
    proof (cases "addMarker_scan ?pos (rev ?cands) s")
      case (Some c)
      let ?s1 = "Cluster_addMarker c ?ref s"
      note eq = addMarker_joined [OF placed Some, of nodraw added]
      have st: "state_of ?r = (if nodraw then ?s1 else state_of (Cluster_redraw c False ?s1))"
        by (simp add: eq)
      have rt: "returned ?r = (nodraw \<or> returned (Cluster_redraw c False ?s1))"
        by (auto simp: eq)
      have 1: "c \<in> set ?cands" using addMarker_scan_in [OF Some] by simp
      have 2: "clusters (state_of ?r) = clusters s" by (simp add: st)
      have 3: "leftMarkers (state_of ?r) = leftMarkers s" by (simp add: st)
      have 4: "next_cid (state_of ?r) = next_cid s" by (simp add: st)
      have 5: "heap (state_of ?r) c' = heap s c'" if "c' \<noteq> c" for c'
        using that by (simp add: st redraw_heap_other Cluster_addMarker_heap)
      have 6: "members (state_of ?r) c = members s c @ [m]"
        by (simp add: st members_def Cluster_addMarker_heap)
      have 7: "center (heap s c) \<noteq> None"
        using Some by (rule addMarker_scan_center)
      have 8: "center (heap (state_of ?r) c) = center (heap s c)"
        using 7 by (auto simp: st Cluster_addMarker_heap)
      have 9: "?r = Returned cl (state_of ?r)" if "returned ?r"
        using that by (cases "Cluster_redraw c False ?s1") (auto simp: eq split: if_splits)
      have 10: "returned ?r \<and> cluster_ok (styles s) (heap (state_of ?r) c)"
        if "styles s \<noteq> []"
          and "case clusterMarker (heap s c) of None \<Rightarrow> True | Some b \<Rightarrow> badge_ok (styles s) b"
      proof -
        have ok1: "cluster_ok (styles ?s1) (heap ?s1 c)"
          using cluster_ok_addMarker [OF that(2)] by simp
        have "styles ?s1 \<noteq> []" using that(1) by simp
        from redraw_cluster_ok [OF this ok1, of False] ok1 show ?thesis
          by (simp add: st rt)
      qed
      show ?thesis using joined [OF placed Some 1 2 3 4 5 6 7 8 9 10] by blast
    next
      case None
      let ?s0 = "s\<lparr>heap := (heap s)(next_cid s := Cluster_new (hostMap s)),
                    next_cid := Suc (next_cid s)\<rparr>"
      let ?s1 = "Cluster_addMarker (next_cid s) ?ref ?s0"
      let ?o = "if nodraw then Returned () ?s1 else Cluster_redraw (next_cid s) False ?s1"
      note eq = addMarker_created [OF placed None, of nodraw added]
      have st: "state_of ?r = (state_of ?o)\<lparr>clusters := clusters s @ [next_cid s]\<rparr>"
        by (simp add: eq)
      have 1: "?r = Returned (map_option (\<lambda>cs. cs @ [next_cid s]) cl) (state_of ?r)"
        by (simp add: eq)
      have 2: "clusters (state_of ?r) = clusters s @ [next_cid s]" by (simp add: st)
      have 3: "leftMarkers (state_of ?r) = leftMarkers s" by (simp add: st)
      have 4: "next_cid (state_of ?r) = Suc (next_cid s)" by (simp add: st)
      have 5: "heap (state_of ?r) c' = heap s c'" if "c' \<noteq> next_cid s" for c'
        using that by (simp add: st redraw_heap_other Cluster_addMarker_heap)
      have 6: "members (state_of ?r) (next_cid s) = [m]"
        by (simp add: st members_def Cluster_addMarker_heap Cluster_new_def)
      have 7: "center (heap (state_of ?r) (next_cid s)) = Some (getLatLng m)"
        by (simp add: st Cluster_addMarker_heap Cluster_new_def)
      have 8: "cluster_ok (styles s) (heap (state_of ?r) (next_cid s))" if "styles s \<noteq> []"
      proof -
        have ok1: "cluster_ok (styles ?s1) (heap ?s1 (next_cid s))"
          by (simp add: cluster_ok_def Cluster_addMarker_heap Cluster_new_def)
        have "styles ?s1 \<noteq> []" using that by simp
        from redraw_cluster_ok [OF this ok1, of False] ok1 show ?thesis
          by (simp add: st)
      qed
      show ?thesis using created [OF placed None 1 2 3 4 5 6 7 8] by blast
    qed
  qed
qed

lemma addMarker_frame [simp]:
  "gridSize (state_of (addMarker m nodraw added cl nocheck s)) = gridSize s"
  "maxZoom (state_of (addMarker m nodraw added cl nocheck s)) = maxZoom s"
  "styles (state_of (addMarker m nodraw added cl nocheck s)) = styles s"
  "getZoom (hostMap (state_of (addMarker m nodraw added cl nocheck s))) = getZoom (hostMap s)"
  "getMaxZoom (hostMap (state_of (addMarker m nodraw added cl nocheck s))) = getMaxZoom (hostMap s)"
  "getBounds (hostMap (state_of (addMarker m nodraw added cl nocheck s))) = getBounds (hostMap s)"
  "latLngToLayerPoint (hostMap (state_of (addMarker m nodraw added cl nocheck s))) =
     latLngToLayerPoint (hostMap s)"
proof -
  let ?pos = "latLngToLayerPoint (hostMap s) (getLatLng m)"
  let ?cands = "case cl of None \<Rightarrow> clusters s | Some cs \<Rightarrow> cs"
  let ?r = "addMarker m nodraw added cl nocheck s"
  have "gridSize (state_of ?r) = gridSize s \<and> maxZoom (state_of ?r) = maxZoom s \<and>
        styles (state_of ?r) = styles s \<and>
        getZoom (hostMap (state_of ?r)) = getZoom (hostMap s) \<and>
        getMaxZoom (hostMap (state_of ?r)) = getMaxZoom (hostMap s) \<and>
        getBounds (hostMap (state_of ?r)) = getBounds (hostMap s) \<and>
        latLngToLayerPoint (hostMap (state_of ?r)) = latLngToLayerPoint (hostMap s)"
  proof (cases "nocheck \<or> isMarkerInViewport m s")
    case False
    then show ?thesis by (simp add: addMarker_deferred)
  next
    case placed: True
    show ?thesis
    proof (cases "addMarker_scan ?pos (rev ?cands) s")
      case (Some c)
      show ?thesis by (simp add: addMarker_joined [OF placed Some])
    next
      case None
      show ?thesis by (simp add: addMarker_created [OF placed None])
    qed
  qed
  then show
    "gridSize (state_of ?r) = gridSize s" "maxZoom (state_of ?r) = maxZoom s"
    "styles (state_of ?r) = styles s"
    "getZoom (hostMap (state_of ?r)) = getZoom (hostMap s)"
    "getMaxZoom (hostMap (state_of ?r)) = getMaxZoom (hostMap s)"
    "getBounds (hostMap (state_of ?r)) = getBounds (hostMap s)"
    "latLngToLayerPoint (hostMap (state_of ?r)) = latLngToLayerPoint (hostMap s)"
    by simp_all
qed

lemma addMarker_nodraw_returns: "returned (addMarker m True added cl nocheck s)"
proof (cases rule: addMarker_effect [of nocheck m s True added cl])
  case deferred
  then show ?thesis by simp
next
  case (joined c)
  have "addMarker m True added cl nocheck s =
          Returned cl (Cluster_addMarker c
             \<lparr>isAdded = (case added of None \<Rightarrow> False | Some b \<Rightarrow> b), marker = m\<rparr> s)"
    using addMarker_joined [OF joined(1,2), of True added] by simp
  then show ?thesis by simp
next
  case created
  then show ?thesis by (metis returned.simps(1))
qed

section \<open>The container slots\<close>

lemma members_update [simp]:
  "members (s\<lparr>leftMarkers := l\<rparr>) = members s"
  "members (s\<lparr>clusters := cs\<rparr>) = members s"
  by (rule ext, simp add: members_def)+

lemma mset_concat_map_upd:
  assumes "distinct xs" and "c \<in> set xs" and "\<And>x. x \<in> set xs \<Longrightarrow> x \<noteq> c \<Longrightarrow> g x = f x"
    and "mset (g c) = mset (f c) + A"
  shows "mset (concat (map g xs)) = mset (concat (map f xs)) + A"
  using assms
proof (induction xs)
  case Nil
  then show ?case by simp
next
  case (Cons x xs)
  show ?case
  proof (cases "x = c")
    case True
    then have "c \<notin> set xs" using Cons.prems(1) by simp
    then have "concat (map g xs) = concat (map f xs)"
      using Cons.prems(3) by (intro arg_cong [where f = concat] map_cong) auto
    then show ?thesis using True Cons.prems(4) by simp
  next
    case False
    then have "mset (concat (map g xs)) = mset (concat (map f xs)) + A"
      using Cons by auto
    moreover have "g x = f x" using False Cons.prems(3) by simp
    ultimately show ?thesis by simp
  qed
qed

lemma slots_joined:
  assumes "distinct (clusters s)" and "c \<in> set (clusters s)"
    and "clusters s' = clusters s" and "leftMarkers s' = leftMarkers s"
    and "\<And>c'. c' \<noteq> c \<Longrightarrow> heap s' c' = heap s c'"
    and "members s' c = members s c @ [m]"
  shows "mset (slots s') = add_mset m (mset (slots s))"
proof -
  have other: "members s' x = members s x" if "x \<noteq> c" for x
    using assms(5) [OF that] by (simp add: members_def)
  have "mset (members s' c) = mset (members s c) + {#m#}"
    by (simp add: assms(6))
  with assms(1,2) other
  have "mset (concat (map (members s') (clusters s))) =
        mset (concat (map (members s) (clusters s))) + {#m#}"
    by (intro mset_concat_map_upd) auto
  then show ?thesis using assms(3,4) by (simp add: slots_def)
qed

lemma slots_created:
  assumes "n \<notin> set (clusters s)"
    and "clusters s' = clusters s @ [n]" and "leftMarkers s' = leftMarkers s"
    and "\<And>c'. c' \<noteq> n \<Longrightarrow> heap s' c' = heap s c'"
    and "members s' n = [m]"
  shows "mset (slots s') = add_mset m (mset (slots s))"
proof -
  have other: "members s' x = members s x" if "x \<noteq> n" for x
    using assms(4) [OF that] by (simp add: members_def)
  have "members s' x = members s x" if "x \<in> set (clusters s)" for x
    using that assms(1) other by metis
  then have eq: "map (members s') (clusters s) = map (members s) (clusters s)"
    by simp
  show ?thesis using assms(2,3,5) by (simp add: slots_def eq)
qed

lemma refs_ok_fresh: "refs_ok s \<Longrightarrow> next_cid s \<notin> set (clusters s)"
  by (auto simp: refs_ok_def list_all_iff)

lemma addMarker_slots:
  assumes "refs_ok s" and "candidates_ok cl s"
  shows "mset (slots (state_of (addMarker m nodraw added cl nocheck s))) =
           add_mset m (mset (slots s))"
proof (cases rule: addMarker_effect [of nocheck m s nodraw added cl])
  case deferred
  then show ?thesis by (simp add: slots_def members_def)
next
  case (joined c)
  have "c \<in> set (clusters s)"
    using joined(3) assms(2) by (auto simp: candidates_ok_def split: option.splits)
  then show ?thesis
    using assms(1) joined by (intro slots_joined [of s c]) (auto simp: refs_ok_def)
next
  case created
  show ?thesis
    using refs_ok_fresh [OF assms(1)] created by (intro slots_created [of "next_cid s" s]) auto
qed

lemma addMarker_refs_ok:
  assumes "refs_ok s"
  shows "refs_ok (state_of (addMarker m nodraw added cl nocheck s))"
proof (cases rule: addMarker_effect [of nocheck m s nodraw added cl])
  case deferred
  then show ?thesis using assms by (simp add: refs_ok_def)
next
  case (joined c)
  then show ?thesis using assms by (simp add: refs_ok_def)
next
  case created
  then show ?thesis using assms by (auto simp: refs_ok_def list_all_iff)
qed

lemma addMarker_candidates:
  assumes "candidates_ok cl s" and "addMarker m nodraw added cl nocheck s = Returned cl' s'"
  shows "candidates_ok cl' s' \<and> (cl' = None \<longleftrightarrow> cl = None)"
proof (cases rule: addMarker_effect [of nocheck m s nodraw added cl])
  case deferred
  then show ?thesis using assms by (auto simp: candidates_ok_def split: option.splits)
next
  case (joined c)
  then show ?thesis using assms by (auto simp: candidates_ok_def split: option.splits)
next
  case created
  then show ?thesis using assms by (auto simp: candidates_ok_def split: option.splits)
qed

lemma engine_okD:
  "engine_ok s \<Longrightarrow> c \<in> set (clusters s) \<Longrightarrow> cluster_ok (styles s) (heap s c)"
  by (simp add: engine_ok_def list_all_iff)

lemma addMarker_engine_ok:
  assumes "engine_ok s" and "candidates_ok cl s"
  shows "returned (addMarker m nodraw added cl nocheck s) \<and>
         engine_ok (state_of (addMarker m nodraw added cl nocheck s))"
proof -
  let ?r = "addMarker m nodraw added cl nocheck s"
  have refs: "refs_ok (state_of ?r)"
    using assms(1) by (auto simp: engine_ok_def intro: addMarker_refs_ok)
  have sts: "styles s \<noteq> []" using assms(1) by (simp add: engine_ok_def)
  show ?thesis
  proof (cases rule: addMarker_effect [of nocheck m s nodraw added cl])
    case deferred
    then show ?thesis using assms(1) by (simp add: engine_ok_def refs_ok_def)
  next
    case (joined c)
    have c: "c \<in> set (clusters s)"
      using joined(3) assms(2) by (auto simp: candidates_ok_def split: option.splits)
    have "cluster_ok (styles s) (heap s c)" using engine_okD [OF assms(1) c] .
    then have "case clusterMarker (heap s c) of None \<Rightarrow> True | Some b \<Rightarrow> badge_ok (styles s) b"
      by (simp add: cluster_ok_def)
    from joined(12) [OF sts this] have
      r: "returned ?r" and ok: "cluster_ok (styles s) (heap (state_of ?r) c)" by auto
    have "cluster_ok (styles s) (heap (state_of ?r) c')" if "c' \<in> set (clusters s)" for c'
    proof (cases "c' = c")
      case True
      then show ?thesis using ok by simp
    next
      case False
      then have "heap (state_of ?r) c' = heap s c'" by (rule joined(7))
      then show ?thesis using engine_okD [OF assms(1) that] by simp
    qed
    then show ?thesis using r refs sts joined(4) by (simp add: engine_ok_def list_all_iff)
  next
    case created
    have fresh: "next_cid s \<notin> set (clusters s)"
      using assms(1) refs_ok_fresh [of s] by (simp add: engine_ok_def)
    have "cluster_ok (styles s) (heap (state_of ?r) c')" if "c' \<in> set (clusters s)" for c'
    proof -
      have "c' \<noteq> next_cid s" using that fresh by auto
      then have "heap (state_of ?r) c' = heap s c'" by (rule created(7))
      then show ?thesis using engine_okD [OF assms(1) that] by simp
    qed
    then show ?thesis
      using refs sts created(3,4) created(10) [OF sts]
      by (auto simp: engine_ok_def list_all_iff) (metis returned.simps(1))
  qed
qed

section \<open>The loops over \<^verbatim>\<open>addMarker\<close> and \<^verbatim>\<open>redraw_\<close>\<close>

lemma same_view_refl [simp]: "same_view s s"
  by (simp add: same_view_def)

lemma same_view_trans: "same_view s s' \<Longrightarrow> same_view s' s'' \<Longrightarrow> same_view s s''"
  by (simp add: same_view_def)

lemma same_view_addMarker [simp]: "same_view s (state_of (addMarker m nodraw added cl nocheck s))"
  by (simp add: same_view_def)

lemma same_view_redraw [simp]: "same_view s (state_of (Cluster_redraw c f s))"
  by (simp add: same_view_def)

lemma same_view_clearMarkers [simp]: "same_view s (Cluster_clearMarkers c s)"
  by (simp add: same_view_def)

lemma same_view_lists [simp]:
  "same_view s (s'\<lparr>clusters := cs\<rparr>) = same_view s s'"
  "same_view s (s'\<lparr>leftMarkers := l\<rparr>) = same_view s s'"
  by (simp_all add: same_view_def)

lemma addMarker_nocheck_leftMarkers:
  "leftMarkers (state_of (addMarker m nodraw added cl True s)) = leftMarkers s"
  by (cases rule: addMarker_effect [of True m s nodraw added cl]) simp_all

lemma addMarker_next_cid: "next_cid s \<le> next_cid (state_of (addMarker m nodraw added cl nocheck s))"
  by (cases rule: addMarker_effect [of nocheck m s nodraw added cl]) simp_all

text \<open>What one call of \<^verbatim>\<open>addMarker\<close> with the redraw suppressed does.\<close>

lemma addMarker_nodraw_step:
  assumes "candidates_ok cl s"
  obtains cl' s1 where
    "addMarker m True added cl nocheck s = Returned cl' s1"
    "candidates_ok cl' s1" "same_view s s1"
    "nocheck \<Longrightarrow> leftMarkers s1 = leftMarkers s"
    "refs_ok s \<Longrightarrow> refs_ok s1"
    "refs_ok s \<Longrightarrow> mset (slots s1) = add_mset m (mset (slots s))"
    "engine_ok s \<Longrightarrow> engine_ok s1"
    "next_cid s \<le> next_cid s1"
proof -
  let ?r = "addMarker m True added cl nocheck s"
  obtain cl' s1 where eq: "?r = Returned cl' s1"
    using addMarker_nodraw_returns [of m added cl nocheck s] by (cases ?r) auto
  then have st: "state_of ?r = s1" by simp
  have 1: "candidates_ok cl' s1" using addMarker_candidates [OF assms eq] by simp
  have 2: "same_view s s1" using same_view_addMarker [of s m True added cl nocheck] st by simp
  have 3: "leftMarkers s1 = leftMarkers s" if nocheck
    using addMarker_nocheck_leftMarkers [of m True added cl s] st that by simp
  have 4: "refs_ok s1" if "refs_ok s"
    using addMarker_refs_ok [OF that, of m True added cl nocheck] st by simp
  have 5: "mset (slots s1) = add_mset m (mset (slots s))" if "refs_ok s"
    using addMarker_slots [OF that assms, of m True added nocheck] st by simp
  have 6: "engine_ok s1" if "engine_ok s"
    using addMarker_engine_ok [OF that assms, of m True added nocheck] st by simp
  have 7: "next_cid s \<le> next_cid s1"
    using addMarker_next_cid [of s m True added cl nocheck] st by simp
  show thesis using that [OF eq 1 2 3 4 5 6 7] by blast
qed

lemma addMarkers_loop_inv:
  "returned (addMarkers_loop ms s) \<and> same_view s (state_of (addMarkers_loop ms s)) \<and>
   (refs_ok s \<longrightarrow>
      refs_ok (state_of (addMarkers_loop ms s)) \<and>
      mset (slots (state_of (addMarkers_loop ms s))) = mset (slots s) + mset ms) \<and>
   (engine_ok s \<longrightarrow> engine_ok (state_of (addMarkers_loop ms s)))"
proof (induction ms arbitrary: s)
  case Nil
  then show ?case by simp
next
  case (Cons m ms)
  have c: "candidates_ok None s" by (simp add: candidates_ok_def)
  obtain cl' s1 where
    eq: "addMarker m True None None False s = Returned cl' s1" and
    v: "same_view s s1" and
    r: "refs_ok s \<Longrightarrow> refs_ok s1" and
    sl: "refs_ok s \<Longrightarrow> mset (slots s1) = add_mset m (mset (slots s))" and
    e: "engine_ok s \<Longrightarrow> engine_ok s1"
    by (rule addMarker_nodraw_step [OF c, of m None False]) blast
  have loop: "addMarkers_loop (m # ms) s = addMarkers_loop ms s1"
    by (simp add: eq)
  note ih = Cons.IH [of s1]
  have v': "same_view s (state_of (addMarkers_loop ms s1))"
    using ih v same_view_trans by blast
  have r': "refs_ok (state_of (addMarkers_loop ms s1)) \<and>
            mset (slots (state_of (addMarkers_loop ms s1))) = mset (slots s) + mset (m # ms)"
    if "refs_ok s"
  proof -
    from ih r [OF that] have "refs_ok (state_of (addMarkers_loop ms s1)) \<and>
        mset (slots (state_of (addMarkers_loop ms s1))) = mset (slots s1) + mset ms"
      by blast
    then show ?thesis by (simp add: sl [OF that])
  qed
  show ?case unfolding loop using ih v' r' e by blast
qed

lemma addLeftMarkers_loop_inv:
  "returned (addLeftMarkers_loop ms s) \<and> same_view s (state_of (addLeftMarkers_loop ms s)) \<and>
   leftMarkers (state_of (addLeftMarkers_loop ms s)) = leftMarkers s \<and>
   (refs_ok s \<longrightarrow>
      refs_ok (state_of (addLeftMarkers_loop ms s)) \<and>
      mset (slots (state_of (addLeftMarkers_loop ms s))) = mset (slots s) + mset ms) \<and>
   (engine_ok s \<longrightarrow> engine_ok (state_of (addLeftMarkers_loop ms s)))"
proof (induction ms arbitrary: s)
  case Nil
  then show ?case by simp
next
  case (Cons m ms)
  have c: "candidates_ok None s" by (simp add: candidates_ok_def)
  obtain cl' s1 where
    eq: "addMarker m True None None True s = Returned cl' s1" and
    v: "same_view s s1" and
    l: "leftMarkers s1 = leftMarkers s" and
    r: "refs_ok s \<Longrightarrow> refs_ok s1" and
    sl: "refs_ok s \<Longrightarrow> mset (slots s1) = add_mset m (mset (slots s))" and
    e: "engine_ok s \<Longrightarrow> engine_ok s1"
    by (rule addMarker_nodraw_step [OF c, of m None True]) blast
  have loop: "addLeftMarkers_loop (m # ms) s = addLeftMarkers_loop ms s1"
    by (simp add: eq)
  note ih = Cons.IH [of s1]
  have v': "same_view s (state_of (addLeftMarkers_loop ms s1))"
    using ih v same_view_trans by blast
  have l': "leftMarkers (state_of (addLeftMarkers_loop ms s1)) = leftMarkers s"
    using ih l by simp
  have r': "refs_ok (state_of (addLeftMarkers_loop ms s1)) \<and>
            mset (slots (state_of (addLeftMarkers_loop ms s1))) = mset (slots s) + mset (m # ms)"
    if "refs_ok s"
  proof -
    from ih r [OF that] have "refs_ok (state_of (addLeftMarkers_loop ms s1)) \<and>
        mset (slots (state_of (addLeftMarkers_loop ms s1))) = mset (slots s1) + mset ms"
      by blast
    then show ?thesis by (simp add: sl [OF that])
  qed
  show ?case unfolding loop using ih v' l' r' e by blast
qed

lemma reAddMarkers_loop_inv:
  assumes "candidates_ok cl s"
  shows
  "(\<exists>cl'. reAddMarkers_loop rs cl s = Returned cl' (state_of (reAddMarkers_loop rs cl s)) \<and>
          candidates_ok cl' (state_of (reAddMarkers_loop rs cl s))) \<and>
   same_view s (state_of (reAddMarkers_loop rs cl s)) \<and>
   leftMarkers (state_of (reAddMarkers_loop rs cl s)) = leftMarkers s \<and>
   next_cid s \<le> next_cid (state_of (reAddMarkers_loop rs cl s)) \<and>
   (refs_ok s \<longrightarrow>
      refs_ok (state_of (reAddMarkers_loop rs cl s)) \<and>
      mset (slots (state_of (reAddMarkers_loop rs cl s))) = mset (slots s) + mset (map marker rs)) \<and>
   (engine_ok s \<longrightarrow> engine_ok (state_of (reAddMarkers_loop rs cl s)))"
  using assms
proof (induction rs arbitrary: s cl)
  case Nil
  then show ?case by simp
next
  case (Cons x rs)
  obtain cl' s1 where
    eq: "addMarker (marker x) True (Some (isAdded x)) cl True s = Returned cl' s1" and
    c': "candidates_ok cl' s1" and
    v: "same_view s s1" and
    l: "leftMarkers s1 = leftMarkers s" and
    r: "refs_ok s \<Longrightarrow> refs_ok s1" and
    sl: "refs_ok s \<Longrightarrow> mset (slots s1) = add_mset (marker x) (mset (slots s))" and
    e: "engine_ok s \<Longrightarrow> engine_ok s1" and
    n: "next_cid s \<le> next_cid s1"
    by (rule addMarker_nodraw_step [OF Cons.prems, of "marker x" "Some (isAdded x)" True]) blast
  have loop: "reAddMarkers_loop (x # rs) cl s = reAddMarkers_loop rs cl' s1"
    by (simp add: eq)
  note ih = Cons.IH [OF c']
  have v': "same_view s (state_of (reAddMarkers_loop rs cl' s1))"
    using ih v same_view_trans by blast
  have l': "leftMarkers (state_of (reAddMarkers_loop rs cl' s1)) = leftMarkers s"
    using ih l by simp
  have n': "next_cid s \<le> next_cid (state_of (reAddMarkers_loop rs cl' s1))"
    using ih n by linarith
  have r': "refs_ok (state_of (reAddMarkers_loop rs cl' s1)) \<and>
            mset (slots (state_of (reAddMarkers_loop rs cl' s1))) =
              mset (slots s) + mset (map marker (x # rs))"
    if "refs_ok s"
  proof -
    from ih r [OF that] have "refs_ok (state_of (reAddMarkers_loop rs cl' s1)) \<and>
        mset (slots (state_of (reAddMarkers_loop rs cl' s1))) =
          mset (slots s1) + mset (map marker rs)"
      by blast
    then show ?thesis by (simp add: sl [OF that])
  qed
  show ?case unfolding loop using ih v' l' n' r' e by blast
qed

section \<open>Dissolving the stale clusters\<close>

lemma splice_cluster_distinct: "distinct cs \<Longrightarrow> splice_cluster c cs = filter (\<lambda>x. x \<noteq> c) cs"
proof (induction c cs rule: splice_cluster.induct)
  case (1 cluster)
  then show ?case by simp
next
  case (2 cluster a)
  then show ?case by simp
next
  case (3 cluster a b rest)
  show ?case
  proof (cases "cluster = a")
    case True
    then have nb: "b \<noteq> cluster" and nr: "cluster \<notin> set rest" using 3(3) by auto
    have fr: "filter (\<lambda>x. x \<noteq> cluster) rest = rest"
      using nr by (auto simp: filter_id_conv)
    have "splice_cluster cluster rest = filter (\<lambda>x. x \<noteq> cluster) rest"
      using 3(1) [OF True] 3(3) by simp
    then show ?thesis using True nb fr by simp
  next
    case False
    then show ?thesis using 3(2) [OF False] 3(3) by simp
  qed
qed

lemma Cluster_clearMarkers_clusters:
  "Cluster_clearMarkers c (s\<lparr>clusters := cs\<rparr>) = (Cluster_clearMarkers c s)\<lparr>clusters := cs\<rparr>"
  by (simp add: Cluster_clearMarkers_def upd_map_def upd_cluster_def Let_def split: option.splits)

lemma fold_clearMarkers_clusters:
  "fold Cluster_clearMarkers xs (s\<lparr>clusters := cs\<rparr>) = (fold Cluster_clearMarkers xs s)\<lparr>clusters := cs\<rparr>"
  by (induction xs arbitrary: s) (simp_all add: Cluster_clearMarkers_clusters)

lemma fold_clearMarkers_fields [simp]:
  "clusters (fold Cluster_clearMarkers xs s) = clusters s"
  "leftMarkers (fold Cluster_clearMarkers xs s) = leftMarkers s"
  "next_cid (fold Cluster_clearMarkers xs s) = next_cid s"
  by (induction xs arbitrary: s; simp)+

lemma same_view_fold_clearMarkers [simp]: "same_view s (fold Cluster_clearMarkers xs s)"
proof (induction xs arbitrary: s)
  case Nil
  then show ?case by simp
next
  case (Cons x xs)
  show ?case using same_view_trans [OF same_view_clearMarkers Cons] by simp
qed

lemma fold_clearMarkers_heap:
  "heap (fold Cluster_clearMarkers xs s) c =
     (if c \<in> set xs then (heap s c)\<lparr>markers := []\<rparr> else heap s c)"
  by (induction xs arbitrary: s) (auto simp: Cluster_clearMarkers_heap)

lemma Cluster_clearMarkers_zoom [simp]:
  "zoom (heap (Cluster_clearMarkers c s) x) = zoom (heap s x)"
  by (auto simp: Cluster_clearMarkers_heap)

lemma stale_clearMarkers [simp]:
  "stale xs ((Cluster_clearMarkers c s)\<lparr>clusters := cs\<rparr>) = stale xs s"
  by (simp add: stale_def)

lemma collect_clearMarkers:
  "c \<notin> set xs \<Longrightarrow> collect xs ((Cluster_clearMarkers c s)\<lparr>clusters := cs\<rparr>) = collect xs s"
  unfolding collect_def
  by (rule arg_cong [where f = concat], rule map_cong) (auto simp: Cluster_clearMarkers_heap)

lemma resetViewport_loop_closed:
  assumes "distinct xs" and "distinct (clusters s)"
  shows "resetViewport_loop xs tmp s = (tmp @ collect (stale xs s) s, dissolve (stale xs s) s)"
  using assms
proof (induction xs arbitrary: tmp s)
  case Nil
  then show ?case by (simp add: collect_def dissolve_def stale_def)
next
  case (Cons c xs)
  show ?case
  proof (cases "zoom (heap s c) = getZoom (hostMap s)")
    case True
    then have "stale (c # xs) s = stale xs s" by (simp add: stale_def)
    then show ?thesis using True Cons
      by (simp add: Cluster_getCurrentZoom_def Let_def)
  next
    case False
    let ?s2 = "(Cluster_clearMarkers c s)\<lparr>clusters := splice_cluster c (clusters s)\<rparr>"
    have st: "stale (c # xs) s = c # stale xs s" using False by (simp add: stale_def)
    have cn: "c \<notin> set (stale xs s)" using Cons.prems(1) by (auto simp: stale_def)
    have d2: "distinct (clusters ?s2)"
      using Cons.prems(2) by (simp add: splice_cluster_distinct)
    have ih: "resetViewport_loop xs tmp' ?s2 =
                (tmp' @ collect (stale xs s) s, dissolve (stale xs s) ?s2)" for tmp'
      using Cons.IH [of ?s2 tmp'] Cons.prems(1) d2 cn
      by (simp add: collect_clearMarkers)
    have ds: "dissolve (stale xs s) ?s2 = dissolve (c # stale xs s) s"
      using Cons.prems(2)
      by (simp add: dissolve_def fold_clearMarkers_clusters splice_cluster_distinct conj_commute)
    have step: "resetViewport_loop (c # xs) tmp s =
                  resetViewport_loop xs
                    (tmp @ map (\<lambda>r. \<lparr>isAdded = False, marker = marker r\<rparr>) (markers (heap s c))) ?s2"
      using False by (simp add: Cluster_getCurrentZoom_def Cluster_getMarkers_def Let_def)
    show ?thesis unfolding step ih ds st by (simp add: collect_def)
  qed
qed

lemma mset_concat_map_perm:
  "mset xs = mset ys \<Longrightarrow> mset (concat (map f xs)) = mset (concat (map f ys))"
proof -
  have "mset (concat (map f zs)) = (\<Sum>x\<in>#mset zs. mset (f x))" for zs :: "'a list"
    by (induction zs) simp_all
  then show "mset xs = mset ys \<Longrightarrow> ?thesis" by simp
qed

lemma mset_concat_map_split:
  assumes "distinct cs" and "distinct xs" and "set cs \<subseteq> set xs"
  shows "mset (concat (map f (filter (\<lambda>c. c \<notin> set cs) xs))) + mset (concat (map f cs)) =
         mset (concat (map f xs))"
proof -
  have "mset cs = mset (filter (\<lambda>c. c \<in> set cs) xs)"
    using assms by (intro set_eq_iff_mset_eq_distinct [THEN iffD1]) auto
  then have "mset (concat (map f cs)) = mset (concat (map f (filter (\<lambda>c. c \<in> set cs) xs)))"
    by (rule mset_concat_map_perm)
  moreover have "mset (concat (map f (filter P xs))) + mset (concat (map f (filter (\<lambda>x. \<not> P x) xs))) =
                 mset (concat (map f xs))" for P
    by (induction xs) simp_all
  ultimately show ?thesis by (simp add: add.commute)
qed

lemma dissolve_fields [simp]:
  "clusters (dissolve cs s) = filter (\<lambda>c. c \<notin> set cs) (clusters s)"
  "leftMarkers (dissolve cs s) = leftMarkers s"
  "next_cid (dissolve cs s) = next_cid s"
  "same_view s (dissolve cs s)"
  by (simp_all add: dissolve_def)

lemma dissolve_heap:
  "heap (dissolve cs s) c = (if c \<in> set cs then (heap s c)\<lparr>markers := []\<rparr> else heap s c)"
  by (simp add: dissolve_def fold_clearMarkers_heap)

lemma dissolve_refs_ok: "refs_ok s \<Longrightarrow> refs_ok (dissolve cs s)"
  by (simp add: refs_ok_def list_all_iff)

lemma same_view_styles: "same_view s s' \<Longrightarrow> styles s' = styles s"
  by (simp add: same_view_def)

lemma dissolve_engine_ok: "engine_ok s \<Longrightarrow> engine_ok (dissolve cs s)"
  using same_view_styles [OF dissolve_fields(4), of cs s]
  by (auto simp: engine_ok_def dissolve_refs_ok list_all_iff dissolve_heap)

lemma dissolve_slots:
  assumes "distinct cs" and "distinct (clusters s)" and "set cs \<subseteq> set (clusters s)"
  shows "mset (slots (dissolve cs s)) + mset (map marker (collect cs s)) = mset (slots s)"
proof -
  have "members s = (\<lambda>c. map marker (markers (heap s c)))"
    by (rule ext) (simp add: members_def)
  then have m: "map marker (collect cs s) = concat (map (members s) cs)"
    by (simp add: collect_def map_concat comp_def)
  have eq: "map (members (dissolve cs s)) (filter (\<lambda>c. c \<notin> set cs) (clusters s)) =
        map (members s) (filter (\<lambda>c. c \<notin> set cs) (clusters s))"
    by (rule map_cong) (auto simp: members_def dissolve_heap)
  have "slots (dissolve cs s) =
               concat (map (members s) (filter (\<lambda>c. c \<notin> set cs) (clusters s))) @ leftMarkers s"
    by (simp add: slots_def eq)
  then show ?thesis
    using mset_concat_map_split [OF assms, of "members s"] by (simp add: m slots_def)
qed

lemma stale_clusters_sub:
  "set (stale_clusters s) \<subseteq> set (clusters s)"
  "distinct (clusters s) \<Longrightarrow> distinct (stale_clusters s)"
  "distinct (clusters s) \<Longrightarrow> distinct (getClustersInViewport s)"
  by (auto simp: stale_clusters_def stale_def getClustersInViewport_def)

lemma resetViewport_loop_eq:
  "distinct (clusters s) \<Longrightarrow>
   resetViewport_loop (getClustersInViewport s) [] s = (collected s, dissolved s)"
  using resetViewport_loop_closed [OF stale_clusters_sub(3), of s s "[]"]
  by (simp add: collected_def dissolved_def stale_clusters_def)

section \<open>Redrawing the clusters in the viewport\<close>

lemma redraw_slots [simp]: "slots (state_of (Cluster_redraw c f s)) = slots s"
proof -
  have "members (state_of (Cluster_redraw c f s)) = members s"
    by (rule ext) (simp add: members_def)
  then show ?thesis by (simp add: slots_def)
qed

lemma redraw_engine_ok:
  assumes "engine_ok s" and "c \<in> set (clusters s)"
  shows "returned (Cluster_redraw c f s) \<and> engine_ok (state_of (Cluster_redraw c f s))"
proof -
  have sts: "styles s \<noteq> []" using assms(1) by (simp add: engine_ok_def)
  note ok = redraw_cluster_ok [OF sts engine_okD [OF assms], of f]
  have "cluster_ok (styles s) (heap (state_of (Cluster_redraw c f s)) c')"
    if "c' \<in> set (clusters s)" for c'
    using that ok engine_okD [OF assms(1) that] redraw_heap_other [of c' c f s]
    by (cases "c' = c") auto
  then show ?thesis using ok assms(1) sts
    by (simp add: engine_ok_def refs_ok_def list_all_iff)
qed

lemma redraw_loop_inv:
  "same_view s (state_of (redraw_loop cs s)) \<and>
   clusters (state_of (redraw_loop cs s)) = clusters s \<and>
   leftMarkers (state_of (redraw_loop cs s)) = leftMarkers s \<and>
   next_cid (state_of (redraw_loop cs s)) = next_cid s \<and>
   slots (state_of (redraw_loop cs s)) = slots s \<and>
   (engine_ok s \<and> set cs \<subseteq> set (clusters s) \<longrightarrow>
      returned (redraw_loop cs s) \<and> engine_ok (state_of (redraw_loop cs s)))"
proof (induction cs arbitrary: s)
  case Nil
  then show ?case by simp
next
  case (Cons c cs)
  let ?r = "Cluster_redraw c True s"
  show ?case
  proof (cases ?r)
    case (Thrown e s1)
    then have st: "state_of ?r = s1" by simp
    have "\<not> returned ?r" using Thrown by simp
    then have "\<not> (engine_ok s \<and> set (c # cs) \<subseteq> set (clusters s))"
      using redraw_engine_ok [of s c True] by auto
    moreover have "same_view s s1" "clusters s1 = clusters s" "leftMarkers s1 = leftMarkers s"
      "next_cid s1 = next_cid s" "slots s1 = slots s"
      using same_view_redraw [of s c True] redraw_fields [of c True s] redraw_slots [of c True s]
      by (simp_all add: st)
    ultimately show ?thesis using Thrown by simp
  next
    case (Returned u s1)
    then have st: "state_of ?r = s1" by simp
    have f: "same_view s s1" "clusters s1 = clusters s" "leftMarkers s1 = leftMarkers s"
      "next_cid s1 = next_cid s" "slots s1 = slots s"
      using same_view_redraw [of s c True] redraw_fields [of c True s] redraw_slots [of c True s]
      by (simp_all add: st)
    have e: "engine_ok s1" if "engine_ok s" "c \<in> set (clusters s)"
      using redraw_engine_ok [OF that, of True] st by simp
    note ih = Cons.IH [of s1]
    have v: "same_view s (state_of (redraw_loop cs s1))"
      using ih f(1) same_view_trans by blast
    show ?thesis using Returned ih f v e by auto
  qed
qed

lemma getClustersInViewport_sub: "set (getClustersInViewport s) \<subseteq> set (clusters s)"
  by (auto simp: getClustersInViewport_def)

lemma redraw_inv:
  "same_view s (state_of (redraw s)) \<and>
   clusters (state_of (redraw s)) = clusters s \<and>
   leftMarkers (state_of (redraw s)) = leftMarkers s \<and>
   next_cid (state_of (redraw s)) = next_cid s \<and>
   slots (state_of (redraw s)) = slots s \<and>
   (engine_ok s \<longrightarrow> returned (redraw s) \<and> engine_ok (state_of (redraw s)))"
  using redraw_loop_inv [of s "getClustersInViewport s"] getClustersInViewport_sub [of s]
  by (simp add: redraw_def)

lemma redraw_refs_ok: "refs_ok s \<Longrightarrow> refs_ok (state_of (redraw s))"
  using redraw_inv [of s] by (simp add: refs_ok_def)

section \<open>Re-attempting the pending markers\<close>

lemma addLeftMarkers_loop_fold:
  "addLeftMarkers_loop ms s =
     Returned () (fold (\<lambda>m s. state_of (addMarker m True None None True s)) ms s)"
proof (induction ms arbitrary: s)
  case Nil
  then show ?case by simp
next
  case (Cons m ms)
  obtain cl' s1 where eq: "addMarker m True None None True s = Returned cl' s1"
    using addMarker_nodraw_returns [of m None None True s]
    by (cases "addMarker m True None None True s") auto
  show ?case using Cons [of s1] by (simp add: eq)
qed

lemma addLeftMarkers_eq: "addLeftMarkers s = Returned () (reattempt_pending s)"
  by (simp add: addLeftMarkers_def reattempt_pending_def addLeftMarkers_loop_fold)

lemma ok_leftMarkers [simp]:
  "refs_ok (s\<lparr>leftMarkers := l\<rparr>) = refs_ok s"
  "engine_ok (s\<lparr>leftMarkers := l\<rparr>) = engine_ok s"
  by (simp_all add: engine_ok_def refs_ok_def)

lemma reattempt_pending_inv:
  "same_view s (reattempt_pending s) \<and> leftMarkers (reattempt_pending s) = [] \<and>
   (refs_ok s \<longrightarrow>
      refs_ok (reattempt_pending s) \<and> mset (slots (reattempt_pending s)) = mset (slots s)) \<and>
   (engine_ok s \<longrightarrow> engine_ok (reattempt_pending s))"
proof -
  let ?s1 = "state_of (addLeftMarkers_loop (leftMarkers s) s)"
  have rp: "reattempt_pending s = ?s1\<lparr>leftMarkers := []\<rparr>"
    by (simp add: reattempt_pending_def addLeftMarkers_loop_fold)
  note inv = addLeftMarkers_loop_inv [of "leftMarkers s" s]
  have sl: "mset (slots (?s1\<lparr>leftMarkers := []\<rparr>)) = mset (slots s)" if "refs_ok s"
  proof -
    have "mset (slots ?s1) = mset (slots s) + mset (leftMarkers s)"
      using inv that by blast
    moreover have "slots ?s1 = slots (?s1\<lparr>leftMarkers := []\<rparr>) @ leftMarkers s"
      using inv by (simp add: slots_def)
    ultimately show ?thesis by simp
  qed
  show ?thesis unfolding rp using inv sl by simp
qed

section \<open>Re-adding the collected markers\<close>

lemma addMarker_returns_Some:
  "addMarker m nodraw added (Some cl) nocheck s = Returned cl' s' \<Longrightarrow> \<exists>cl''. cl' = Some cl''"
  by (cases rule: addMarker_effect [of nocheck m s nodraw added "Some cl"]) auto

lemma reAddMarkers_loop_readd:
  "list_all (\<lambda>r. \<not> isAdded r) rs \<Longrightarrow>
   reAddMarkers_loop rs (Some cl) s =
     Returned (Some (fst (readd (map marker rs) cl s))) (snd (readd (map marker rs) cl s))"
proof (induction rs arbitrary: cl s)
  case Nil
  then show ?case by simp
next
  case (Cons r rs)
  have r: "isAdded r = False" and rs: "list_all (\<lambda>r. \<not> isAdded r) rs"
    using Cons.prems by simp_all
  obtain cl' s1 where eq: "addMarker (marker r) True (Some False) (Some cl) True s = Returned cl' s1"
    using addMarker_nodraw_returns [of "marker r" "Some False" "Some cl" True s]
    by (cases "addMarker (marker r) True (Some False) (Some cl) True s") auto
  then obtain cl'' where cl': "cl' = Some cl''" using addMarker_returns_Some by blast
  show ?case using Cons.IH [OF rs, of cl'' s1] by (simp add: eq cl' r)
qed

lemma collect_not_added: "list_all (\<lambda>r. \<not> isAdded r) (collect cs s)"
  by (simp add: collect_def list_all_iff)

lemma reAddMarkers_eq:
  "reAddMarkers (collected s) s1 =
     Returned () (reattempt_pending (snd (readd (rev (map marker (collected s))) [] s1)))"
proof -
  have "list_all (\<lambda>r. \<not> isAdded r) (rev (collected s))"
    using collect_not_added [of "stale_clusters s" s] by (simp add: collected_def list_all_iff)
  from reAddMarkers_loop_readd [OF this, of "[]" s1] show ?thesis
    by (simp add: reAddMarkers_def addLeftMarkers_eq rev_map)
qed

lemma resetViewport_eq_redraw:
  "distinct (clusters s) \<Longrightarrow>
   resetViewport s =
     redraw (reattempt_pending (snd (readd (rev (map marker (collected s))) [] (dissolved s))))"
  by (simp add: resetViewport_def resetViewport_loop_eq reAddMarkers_eq)

lemma resetViewport_inv:
  assumes "refs_ok s"
  shows "same_view s (state_of (resetViewport s)) \<and>
         refs_ok (state_of (resetViewport s)) \<and>
         mset (slots (state_of (resetViewport s))) = mset (slots s) \<and>
         leftMarkers (state_of (resetViewport s)) = [] \<and>
         (engine_ok s \<longrightarrow> returned (resetViewport s) \<and> engine_ok (state_of (resetViewport s)))"
proof -
  have d: "distinct (clusters s)" using assms by (simp add: refs_ok_def)
  let ?s1 = "dissolved s"
  let ?tmp = "collected s"
  let ?s2 = "state_of (reAddMarkers_loop (rev ?tmp) (Some []) ?s1)"
  let ?s3 = "reattempt_pending ?s2"
  have c: "candidates_ok (Some []) ?s1" by (simp add: candidates_ok_def)
  note l2 = reAddMarkers_loop_inv [OF c, of "rev ?tmp"]
  note l3 = reattempt_pending_inv [of ?s2]
  note l4 = redraw_inv [of ?s3]
  have s2: "?s2 = snd (readd (rev (map marker ?tmp)) [] ?s1)"
    using reAddMarkers_loop_readd [of "rev ?tmp" "[]" ?s1]
      collect_not_added [of "stale_clusters s" s]
    by (simp add: collected_def list_all_iff rev_map)
  have eq: "resetViewport s = redraw ?s3"
    using resetViewport_eq_redraw [OF d] by (simp add: s2)
  have r1: "refs_ok ?s1" using assms by (simp add: dissolved_def dissolve_refs_ok)
  have sl1: "mset (slots ?s1) + mset (map marker ?tmp) = mset (slots s)"
    using dissolve_slots [OF stale_clusters_sub(2) [OF d] d stale_clusters_sub(1)]
    by (simp add: dissolved_def collected_def)
  have r2: "refs_ok ?s2" and sl2: "mset (slots ?s2) = mset (slots s)"
    using l2 r1 sl1 by auto
  have r3: "refs_ok ?s3" and sl3: "mset (slots ?s3) = mset (slots s)"
    using l3 r2 sl2 by auto
  have v1: "same_view s ?s1" by (simp add: dissolved_def)
  have v2: "same_view ?s1 ?s2" using l2 by blast
  have v3: "same_view ?s2 ?s3" using l3 by blast
  have v4: "same_view ?s3 (state_of (redraw ?s3))" using l4 by blast
  have v: "same_view s (state_of (redraw ?s3))"
    using same_view_trans [OF same_view_trans [OF same_view_trans [OF v1 v2] v3] v4] .
  have e: "returned (redraw ?s3) \<and> engine_ok (state_of (redraw ?s3))" if "engine_ok s"
  proof -
    have "engine_ok ?s1" using that by (simp add: dissolved_def dissolve_engine_ok)
    then have "engine_ok ?s3" using l2 l3 by blast
    then show ?thesis using l4 by blast
  qed
  show ?thesis unfolding eq
    using v redraw_refs_ok [OF r3] l4 sl3 l3 e by simp
qed

section \<open>Runs\<close>

lemma addMarkers_inv:
  "same_view s (state_of (addMarkers ms s)) \<and>
   (refs_ok s \<longrightarrow>
      refs_ok (state_of (addMarkers ms s)) \<and>
      mset (slots (state_of (addMarkers ms s))) = mset (slots s) + mset ms) \<and>
   (engine_ok s \<longrightarrow> returned (addMarkers ms s) \<and> engine_ok (state_of (addMarkers ms s)))"
proof -
  note l = addMarkers_loop_inv [of ms s]
  obtain s1 where eq: "addMarkers_loop ms s = Returned () s1"
    using l by (cases "addMarkers_loop ms s") auto
  then have st: "state_of (addMarkers_loop ms s) = s1" by simp
  have am: "addMarkers ms s = redraw s1" by (simp add: addMarkers_def eq)
  note r = redraw_inv [of s1]
  have v: "same_view s (state_of (redraw s1))"
    using l r st same_view_trans by metis
  show ?thesis unfolding am using l r v redraw_refs_ok [of s1] unfolding st by simp
qed

lemma removeMarker_state [simp]: "state_of (removeMarker m s) = s"
  by (simp add: removeMarker_eq split: list.splits)

lemma clearMarkers_fields [simp]:
  "clusters (clearMarkers s) = []" "leftMarkers (clearMarkers s) = []"
  "next_cid (clearMarkers s) = next_cid s" "same_view s (clearMarkers s)"
  by (simp_all add: clearMarkers_def)

lemma clearMarkers_ok:
  "refs_ok (clearMarkers s)" "slots (clearMarkers s) = []"
  "engine_ok s \<Longrightarrow> engine_ok (clearMarkers s)"
  using same_view_styles [OF clearMarkers_fields(4), of s]
  by (simp_all add: refs_ok_def slots_def engine_ok_def)

lemma HostView_ok:
  "refs_ok (step (HostView z mz b p) s) = refs_ok s"
  "slots (step (HostView z mz b p) s) = slots s"
  "engine_ok (step (HostView z mz b p) s) = engine_ok s"
proof -
  have "members (step (HostView z mz b p) s) = members s"
    by (rule ext) (simp add: members_def)
  then show "slots (step (HostView z mz b p) s) = slots s" by (simp add: slots_def)
qed (simp_all add: refs_ok_def engine_ok_def)

lemma step_refs_ok: "refs_ok s \<Longrightarrow> refs_ok (step x s)"
proof (cases x)
  case (AddMarker m nodraw added nocheck)
  then show "refs_ok s \<Longrightarrow> ?thesis" by (simp add: addMarker_refs_ok)
next
  case (AddMarkers ms)
  then show "refs_ok s \<Longrightarrow> ?thesis" using addMarkers_inv [of s ms] by simp
next
  case ResetViewport
  then show "refs_ok s \<Longrightarrow> ?thesis" using resetViewport_inv [of s] by simp
next
  case ClearMarkers
  then show ?thesis by (simp add: clearMarkers_ok)
next
  case (HostView z mz b p)
  then show "refs_ok s \<Longrightarrow> ?thesis" by (simp only: HostView_ok)
qed simp

lemma step_engine_ok: "engine_ok s \<Longrightarrow> engine_ok (step x s)"
proof (cases x)
  case (AddMarker m nodraw added nocheck)
  have "candidates_ok None s" by (simp add: candidates_ok_def)
  then show "engine_ok s \<Longrightarrow> ?thesis" using AddMarker by (simp add: addMarker_engine_ok)
next
  case (AddMarkers ms)
  then show "engine_ok s \<Longrightarrow> ?thesis" using addMarkers_inv [of s ms] by simp
next
  case ResetViewport
  then show "engine_ok s \<Longrightarrow> ?thesis" using resetViewport_inv [of s]
    by (simp add: engine_ok_def)
next
  case ClearMarkers
  then show "engine_ok s \<Longrightarrow> ?thesis" by (simp add: clearMarkers_ok)
next
  case (HostView z mz b p)
  then show "engine_ok s \<Longrightarrow> ?thesis" by (simp only: HostView_ok)
qed simp

lemma step_slots: "refs_ok s \<Longrightarrow> mset (slots (step x s)) = mset (registered [x] (slots s))"
proof (cases x)
  case (AddMarker m nodraw added nocheck)
  have "candidates_ok None s" by (simp add: candidates_ok_def)
  then show "refs_ok s \<Longrightarrow> ?thesis" using AddMarker by (simp add: addMarker_slots)
next
  case (AddMarkers ms)
  then show "refs_ok s \<Longrightarrow> ?thesis" using addMarkers_inv [of s ms] by simp
next
  case ResetViewport
  then show "refs_ok s \<Longrightarrow> ?thesis" using resetViewport_inv [of s] by simp
next
  case ClearMarkers
  then show ?thesis by (simp add: clearMarkers_ok)
next
  case (HostView z mz b p)
  then show ?thesis by (simp add: HostView_ok del: step.simps)
qed simp

lemma registered_mset:
  "mset acc = mset acc' \<Longrightarrow> mset (registered ops acc) = mset (registered ops acc')"
proof (induction ops arbitrary: acc acc')
  case Nil
  then show ?case by simp
next
  case (Cons x ops)
  show ?case using Cons.prems by (cases x) (auto intro!: Cons.IH)
qed

lemma registered_Cons: "registered (x # ops) acc = registered ops (registered [x] acc)"
  by (cases x) simp_all

lemma exec_Cons [simp]: "exec (x # ops) s = exec ops (step x s)"
  by (simp add: exec_def)

lemma exec_Nil [simp]: "exec [] s = s"
  by (simp add: exec_def)

lemma exec_refs_ok: "refs_ok s \<Longrightarrow> refs_ok (exec ops s)"
  by (induction ops arbitrary: s) (simp_all add: step_refs_ok)

lemma exec_engine_ok: "engine_ok s \<Longrightarrow> engine_ok (exec ops s)"
  by (induction ops arbitrary: s) (simp_all add: step_engine_ok)

lemma exec_slots:
  "refs_ok s \<Longrightarrow> mset (slots s) = mset acc \<Longrightarrow>
   mset (slots (exec ops s)) = mset (registered ops acc)"
proof (induction ops arbitrary: s acc)
  case Nil
  then show ?case by simp
next
  case (Cons x ops)
  have "mset (slots (step x s)) = mset (registered [x] acc)"
    using step_slots [OF Cons.prems(1), of x] registered_mset [OF Cons.prems(2), of "[x]"]
    by simp
  from Cons.IH [OF step_refs_ok [OF Cons.prems(1)] this] show ?case
    by (simp add: registered_Cons [of x ops acc])
qed

section \<open>The constructor\<close>

lemma default_styles_nonempty: "default_styles \<noteq> []"
  by (simp add: default_styles_def)

lemma LeafClusterer_config:
  "engine_ok (state_of (LeafClusterer m None opt_opts)) \<and>
   slots (state_of (LeafClusterer m None opt_opts)) = [] \<and>
   hostMap (state_of (LeafClusterer m None opt_opts)) = m"
  by (auto simp: LeafClusterer_def engine_ok_def refs_ok_def slots_def default_styles_nonempty
        Let_def split: option.splits)

lemma LeafClusterer_markers:
  "LeafClusterer m (Some ms) opt_opts = addMarkers ms (state_of (LeafClusterer m None opt_opts))"
  by (simp add: LeafClusterer_def Let_def split: option.splits)

lemma engine_ok_refs: "engine_ok s \<Longrightarrow> refs_ok s"
  by (simp add: engine_ok_def)

lemma LeafClusterer_ok:
  "returned (LeafClusterer m opt_markers opt_opts) \<and>
   engine_ok (state_of (LeafClusterer m opt_markers opt_opts)) \<and>
   mset (slots (state_of (LeafClusterer m opt_markers opt_opts))) =
     mset (initial_markers opt_markers)"
proof (cases opt_markers)
  case None
  then show ?thesis using LeafClusterer_config [of m opt_opts]
    by (auto simp: initial_markers_def LeafClusterer_def Let_def split: option.splits)
next
  case (Some ms)
  note c = LeafClusterer_config [of m opt_opts]
  show ?thesis
    using addMarkers_inv [of "state_of (LeafClusterer m None opt_opts)" ms] c
      engine_ok_refs [of "state_of (LeafClusterer m None opt_opts)"]
    by (simp add: Some LeafClusterer_markers initial_markers_def)
qed

section \<open>Slots without repetition\<close>

lemma distinct_concat_map_disjoint:
  "distinct (concat (map f xs)) \<Longrightarrow> x \<in> set xs \<Longrightarrow> y \<in> set xs \<Longrightarrow> x \<noteq> y \<Longrightarrow>
   set (f x) \<inter> set (f y) = {}"
  by (induction xs) auto

lemma distinct_slots_one_container:
  assumes "distinct (slots s)" and "mk \<in> set (slots s)"
  shows "in_one_container s mk"
proof -
  have d: "distinct (concat (map (members s) (clusters s)))"
    and dj: "set (concat (map (members s) (clusters s))) \<inter> set (leftMarkers s) = {}"
    using assms(1) by (simp_all add: slots_def)
  have once: "count_list (slots s) mk = 1"
    using assms distinct_count_atmost_1 [of "slots s"] by (simp add: count_mset [symmetric])
  show ?thesis
  proof (cases "mk \<in> set (leftMarkers s)")
    case True
    then have "\<forall>c \<in> set (clusters s). mk \<notin> set (members s c)" using dj by auto
    then show ?thesis using True once by (simp add: in_one_container_def)
  next
    case False
    then obtain c where c: "c \<in> set (clusters s)" "mk \<in> set (members s c)"
      using assms(2) by (auto simp: slots_def)
    have "mk \<notin> set (members s c')" if "c' \<in> set (clusters s)" "c' \<noteq> c" for c'
      using distinct_concat_map_disjoint [OF d c(1) that(1)] that(2) c(2) by auto
    then show ?thesis using False once c by (auto simp: in_one_container_def)
  qed
qed

section \<open>Viewport deferral\<close>

lemma foldl_add_sum: "foldl (\<lambda>r c. r + f c) (a::nat) xs = a + sum_list (map f xs)"
  by (induction xs arbitrary: a) simp_all

lemma getTotalMarkers_members:
  "getTotalMarkers s = length (concat (map (members s) (clusters s)))"
  by (simp add: getTotalMarkers_def Cluster_getTotalMarkers_def foldl_add_sum length_concat
        members_def comp_def)

lemma resetViewport_clusters_pending:
  assumes "refs_ok s" and "mk \<in> set (leftMarkers s)"
  shows "leftMarkers (state_of (resetViewport s)) = [] \<and>
         (\<exists>c \<in> set (clusters (state_of (resetViewport s))).
            mk \<in> set (members (state_of (resetViewport s)) c))"
proof -
  let ?s' = "state_of (resetViewport s)"
  note inv = resetViewport_inv [OF assms(1)]
  have l: "leftMarkers ?s' = []" using inv by simp
  have "mk \<in> set (slots s)" using assms(2) by (simp add: slots_def)
  moreover have "set (slots ?s') = set (slots s)"
    using inv by (metis set_mset_mset)
  ultimately have "mk \<in> set (slots ?s')" by simp
  then show ?thesis using l by (auto simp: slots_def)
qed

text \<open>
  C7: \<^verbatim>\<open>addMarker\<close> without \<^verbatim>\<open>opt_isNoCheck\<close> of a marker whose position lies outside the
  map's current bounds returns with the marker appended to the pending list and nothing
  else changed: the cluster list and every members list are the same, and so is
  \<^verbatim>\<open>getTotalMarkers\<close>, which counts the members of the clusters and no pending marker. In
  any later state with distinct, allocated cluster references in which the marker is still
  pending (whatever the view is by then, and so also once it includes the marker),
  \<^verbatim>\<open>resetViewport\<close> empties the pending list and leaves the marker a member of a cluster.
\<close>

theorem viewport_deferral:
  assumes "\<not> isMarkerInViewport mk s"
  shows "addMarker mk nodraw added cl False s =
           Returned cl (s\<lparr>leftMarkers := leftMarkers s @ [mk]\<rparr>) \<and>
         clusters (s\<lparr>leftMarkers := leftMarkers s @ [mk]\<rparr>) = clusters s \<and>
         members (s\<lparr>leftMarkers := leftMarkers s @ [mk]\<rparr>) = members s \<and>
         getTotalMarkers (s\<lparr>leftMarkers := leftMarkers s @ [mk]\<rparr>) = getTotalMarkers s \<and>
         getTotalMarkers s = length (concat (map (members s) (clusters s))) \<and>
         (refs_ok s' \<and> mk \<in> set (leftMarkers s') \<longrightarrow>
            leftMarkers (state_of (resetViewport s')) = [] \<and>
            (\<exists>c \<in> set (clusters (state_of (resetViewport s'))).
               mk \<in> set (members (state_of (resetViewport s')) c)))"
  using addMarker_deferred [of False mk s nodraw added cl] assms
    resetViewport_clusters_pending [of s' mk]
  by (simp add: getTotalMarkers_members)

lemma scenario_widened_eq:
  "scenario_widened =
     \<lparr>clusters = [0], leftMarkers = [m4], gridSize = 40, maxZoom = Some 18,
      styles = default_styles,
      hostMap = \<lparr>getZoom = 10, getMaxZoom = 18, getBounds = wide_bounds,
                 latLngToLayerPoint = scenario_project, layers = {MarkerLayer m1}\<rparr>,
      heap = (\<lambda>_. Cluster_new scenario_map)
        (0 := \<lparr>center = Some \<lparr>lat = 0, lng = 0\<rparr>,
               markers = [\<lparr>isAdded = True, marker = m1\<rparr>, \<lparr>isAdded = False, marker = m2\<rparr>],
               clusterMarker = None, zoom = 10\<rparr>),
      next_cid = 1\<rparr>"
  by (simp add: scenario_widened_def scenario_deferred_def scenario_two_eq addMarker_def
        isMarkerInViewport_def scenario_map_def scenario_bounds_def m4_def)

theorem viewport_deferral_witness:
  "\<not> isMarkerInViewport m4 scenario_two \<and>
   leftMarkers scenario_deferred = [m4] \<and>
   getTotalMarkers scenario_deferred = 2 \<and>
   isMarkerInViewport m4 scenario_widened \<and>
   refs_ok scenario_widened \<and> m4 \<in> set (leftMarkers scenario_widened) \<and>
   leftMarkers (state_of (resetViewport scenario_widened)) = [] \<and>
   (\<exists>c \<in> set (clusters (state_of (resetViewport scenario_widened))).
      m4 \<in> set (members (state_of (resetViewport scenario_widened)) c))"
proof -
  have out: "\<not> isMarkerInViewport m4 scenario_two"
    by (simp add: isMarkerInViewport_def scenario_two_eq scenario_map_def scenario_bounds_def
          m4_def)
  have inside: "isMarkerInViewport m4 scenario_widened"
    by (simp add: isMarkerInViewport_def scenario_widened_eq wide_bounds_def m4_def)
  have ok: "refs_ok scenario_widened" "m4 \<in> set (leftMarkers scenario_widened)"
    by (simp_all add: scenario_widened_eq refs_ok_def)
  have t: "getTotalMarkers scenario_two = 2"
    by (simp add: getTotalMarkers_members scenario_two_eq members_def)
  note v = viewport_deferral [OF out, of False None None scenario_widened]
  have d: "scenario_deferred = scenario_two\<lparr>leftMarkers := leftMarkers scenario_two @ [m4]\<rparr>"
    using v by (simp add: scenario_deferred_def)
  have l: "leftMarkers scenario_two = []" by (simp add: scenario_two_eq)
  show ?thesis using v out inside ok t by (simp add: d l)
qed

section \<open>Badge style tier\<close>

lemma initialize_tier:
  assumes "sts \<noteq> []" and "1 \<le> n"
  shows "\<exists>b d. ClusterMarker_initialize l n sts p = Returned () b \<and> cm_count b = Some n \<and>
               10 ^ (d - 1) \<le> n \<and> n < 10 ^ d \<and>
               cm_index b = Some (min d (length sts)) \<and>
               1 \<le> min d (length sts) \<and> min d (length sts) - 1 < length sts \<and>
               cm_style b = Some (sts ! (min d (length sts) - 1))"
proof -
  have n: "n \<noteq> 0" using assms(2) by simp
  let ?b = "\<lparr>cm_latlng = l, cm_count = Some n, cm_styles = Some sts,
             cm_style = Some (sts ! (min (digits_loop n 0) (length sts) - 1)),
             cm_index = Some (min (digits_loop n 0) (length sts)),
             cm_padding = Some p, hidden = False\<rparr>"
  show ?thesis
    using initialize_returns [OF assms(1) n, of l p] digits_loop_bounds [OF n]
      tier_in_range [OF assms(1) n]
    by (intro exI [of _ ?b] exI [of _ "digits_loop n 0"]) simp
qed

lemma reset_tier:
  assumes "badge_ok sts b0" and "sts \<noteq> []" and "1 \<le> n"
  shows "\<exists>b d. ClusterMarker_reset
                 \<lparr>opt_latLng = None, opt_count = n, opt_styles = None, opt_padding = None\<rparr> b0 =
                 Returned () b \<and> cm_count b = Some n \<and>
               10 ^ (d - 1) \<le> n \<and> n < 10 ^ d \<and>
               cm_index b = Some (min d (length sts)) \<and>
               1 \<le> min d (length sts) \<and> min d (length sts) - 1 < length sts \<and>
               cm_style b = Some (sts ! (min d (length sts) - 1))"
proof -
  have n: "n \<noteq> 0" using assms(3) by simp
  let ?b = "b0\<lparr>cm_count := Some n,
               cm_style := Some (sts ! (min (digits_loop n 0) (length sts) - 1)),
               cm_index := Some (min (digits_loop n 0) (length sts))\<rparr>"
  show ?thesis
    using reset_count_returns [OF assms(1,2) n] digits_loop_bounds [OF n]
      tier_in_range [OF assms(2) n]
    by (intro exI [of _ ?b] exI [of _ "digits_loop n 0"]) simp
qed

lemma reachable_ok:
  "engine_ok (exec ops (state_of (LeafClusterer m opt_markers opt_opts)))"
  using LeafClusterer_ok [of m opt_markers opt_opts] by (simp add: exec_engine_ok)

lemma engine_ok_never_raises:
  assumes "engine_ok s"
  shows "styles s \<noteq> [] \<and>
         (\<forall>c \<in> set (clusters s).
            markers (heap s c) \<noteq> [] \<and> returned (Cluster_redraw c f s) \<and>
            (\<forall>bb. clusterMarker (heap s c) = Some bb \<longrightarrow> badge_ok (styles s) bb)) \<and>
         returned (addMarker mk nodraw added None nocheck s) \<and>
         returned (addMarkers ms s) \<and> returned (resetViewport s)"
proof -
  have c: "candidates_ok None s" by (simp add: candidates_ok_def)
  have "markers (heap s c) \<noteq> [] \<and> returned (Cluster_redraw c f s) \<and>
        (\<forall>bb. clusterMarker (heap s c) = Some bb \<longrightarrow> badge_ok (styles s) bb)"
    if "c \<in> set (clusters s)" for c
    using engine_okD [OF assms that] redraw_engine_ok [OF assms that, of f]
    by (auto simp: cluster_ok_def)
  then show ?thesis
    using assms addMarker_engine_ok [OF assms c, of mk nodraw added nocheck]
      addMarkers_inv [of s ms] resetViewport_inv [OF engine_ok_refs [OF assms]]
    by (simp add: engine_ok_def)
qed



section \<open>Grid-square first fit\<close>

text \<open>
  C2: when \<^verbatim>\<open>addMarker\<close> runs on a marker that is in the viewport (or with the check
  bypassed), the candidates (\<^verbatim>\<open>opt_clusters\<close>, by default \<^verbatim>\<open>clusters_\<close>) are searched in
  reverse insertion order for the first cluster whose projected center differs from the
  marker's projected position by at most \<^verbatim>\<open>gridSize_\<close> on both axes. If there is one, the
  marker is appended to its members and nothing else changes but for its redraw: no
  cluster is created and both lists stay as they are. If there is none, exactly one
  cluster is created, at a fresh reference, with the marker as its only member and the
  marker's position as center; it is appended to the global list once, and to the
  candidate list as well when that is a list of its own.
\<close>

theorem addMarker_first_fit:
  assumes "opt_isNoCheck \<or> isMarkerInViewport mk s"
  shows
    "case first_fit s (latLngToLayerPoint (hostMap s) (getLatLng mk))
            (case opt_clusters of None \<Rightarrow> clusters s | Some cs \<Rightarrow> cs) of
       Some c \<Rightarrow>
         c \<in> set (case opt_clusters of None \<Rightarrow> clusters s | Some cs \<Rightarrow> cs) \<and>
         members (state_of (addMarker mk opt_isNodraw opt_isAdded opt_clusters opt_isNoCheck s)) c =
           members s c @ [mk] \<and>
         (\<forall>c'. c' \<noteq> c \<longrightarrow>
            heap (state_of (addMarker mk opt_isNodraw opt_isAdded opt_clusters opt_isNoCheck s)) c' =
              heap s c') \<and>
         clusters (state_of (addMarker mk opt_isNodraw opt_isAdded opt_clusters opt_isNoCheck s)) =
           clusters s \<and>
         next_cid (state_of (addMarker mk opt_isNodraw opt_isAdded opt_clusters opt_isNoCheck s)) =
           next_cid s \<and>
         leftMarkers (state_of (addMarker mk opt_isNodraw opt_isAdded opt_clusters opt_isNoCheck s)) =
           leftMarkers s \<and>
         (returned (addMarker mk opt_isNodraw opt_isAdded opt_clusters opt_isNoCheck s) \<longrightarrow>
            addMarker mk opt_isNodraw opt_isAdded opt_clusters opt_isNoCheck s =
              Returned opt_clusters
                (state_of (addMarker mk opt_isNodraw opt_isAdded opt_clusters opt_isNoCheck s)))
     | None \<Rightarrow>
         addMarker mk opt_isNodraw opt_isAdded opt_clusters opt_isNoCheck s =
           Returned (map_option (\<lambda>cs. cs @ [next_cid s]) opt_clusters)
             (state_of (addMarker mk opt_isNodraw opt_isAdded opt_clusters opt_isNoCheck s)) \<and>
         clusters (state_of (addMarker mk opt_isNodraw opt_isAdded opt_clusters opt_isNoCheck s)) =
           clusters s @ [next_cid s] \<and>
         members (state_of (addMarker mk opt_isNodraw opt_isAdded opt_clusters opt_isNoCheck s))
           (next_cid s) = [mk] \<and>
         center (heap (state_of (addMarker mk opt_isNodraw opt_isAdded opt_clusters opt_isNoCheck s))
           (next_cid s)) = Some (getLatLng mk) \<and>
         (\<forall>c'. c' \<noteq> next_cid s \<longrightarrow>
            heap (state_of (addMarker mk opt_isNodraw opt_isAdded opt_clusters opt_isNoCheck s)) c' =
              heap s c') \<and>
         next_cid (state_of (addMarker mk opt_isNodraw opt_isAdded opt_clusters opt_isNoCheck s)) =
           Suc (next_cid s) \<and>
         leftMarkers (state_of (addMarker mk opt_isNodraw opt_isAdded opt_clusters opt_isNoCheck s)) =
           leftMarkers s"
proof (cases rule: addMarker_effect [of opt_isNoCheck mk s opt_isNodraw opt_isAdded opt_clusters])
  case deferred
  then show ?thesis using assms by simp
next
  case (joined c)
  have "first_fit s (latLngToLayerPoint (hostMap s) (getLatLng mk))
          (case opt_clusters of None \<Rightarrow> clusters s | Some cs \<Rightarrow> cs) = Some c"
    using joined(2) by (simp add: first_fit_def addMarker_scan_find)
  then show ?thesis using joined by simp
next
  case created
  have "first_fit s (latLngToLayerPoint (hostMap s) (getLatLng mk))
          (case opt_clusters of None \<Rightarrow> clusters s | Some cs \<Rightarrow> cs) = None"
    using created(2) by (simp add: first_fit_def addMarker_scan_find)
  then show ?thesis using created by simp
qed

theorem addMarker_first_fit_witness:
  "isMarkerInViewport m2 scenario_one \<and> isMarkerInViewport m3 scenario_one \<and>
   first_fit scenario_one (latLngToLayerPoint (hostMap scenario_one) (getLatLng m2))
     (clusters scenario_one) = Some 0 \<and>
   members (state_of (addMarker m2 False None None False scenario_one)) 0 = [m1, m2] \<and>
   clusters (state_of (addMarker m2 False None None False scenario_one)) = [0] \<and>
   first_fit scenario_one (latLngToLayerPoint (hostMap scenario_one) (getLatLng m3)) [0] = None \<and>
   addMarker m3 True None (Some [0]) False scenario_one =
     Returned (Some [0, 1]) (state_of (addMarker m3 True None (Some [0]) False scenario_one)) \<and>
   clusters (state_of (addMarker m3 True None (Some [0]) False scenario_one)) = [0, 1] \<and>
   members (state_of (addMarker m3 True None (Some [0]) False scenario_one)) 1 = [m3]"
proof -
  have v: "isMarkerInViewport m2 scenario_one" "isMarkerInViewport m3 scenario_one"
    by (simp_all add: isMarkerInViewport_def scenario_one_eq scenario_defs)
  have f2: "first_fit scenario_one (latLngToLayerPoint (hostMap scenario_one) (getLatLng m2))
              (clusters scenario_one) = Some 0"
    by (simp add: first_fit_def within_grid_def scenario_one_eq scenario_defs)
  have f3: "first_fit scenario_one (latLngToLayerPoint (hostMap scenario_one) (getLatLng m3)) [0] =
              None"
    by (simp add: first_fit_def within_grid_def scenario_one_eq scenario_defs)
  have c: "clusters scenario_one = [0]" "next_cid scenario_one = 1"
          "members scenario_one 0 = [m1]"
    by (simp_all add: scenario_one_eq members_def)
  note t2 = addMarker_first_fit [of False m2 scenario_one False None None, OF disjI2, OF v(1)]
  note t3 = addMarker_first_fit [of False m3 scenario_one True None "Some [0]", OF disjI2, OF v(2)]
  show ?thesis using t2 t3 v f2 f3 by (simp add: c)
qed

section \<open>The re-clustering protocol\<close>

lemma readd_isolated:
  assumes "\<forall>c \<in> set cands. n0 \<le> c" and "n0 \<le> next_cid s"
  shows "(\<forall>c. c < n0 \<longrightarrow> heap (snd (readd ms cands s)) c = heap s c) \<and>
         (\<forall>c \<in> set (fst (readd ms cands s)). n0 \<le> c)"
  using assms
proof (induction ms arbitrary: cands s)
  case Nil
  then show ?case by simp
next
  case (Cons m ms)
  let ?r = "addMarker m True (Some False) (Some cands) True s"
  have ret: "returned ?r" by (rule addMarker_nodraw_returns)
  show ?case
  proof (cases rule: addMarker_effect [of True m s True "Some False" "Some cands"])
    case deferred
    then show ?thesis by simp
  next
    case (joined c)
    let ?s1 = "state_of ?r"
    have eq: "?r = Returned (Some cands) ?s1" using joined(11) [OF ret] .
    have c: "n0 \<le> c" using joined(3) Cons.prems(1) by simp
    have h: "heap ?s1 c' = heap s c'" if "c' < n0" for c'
      using joined(7) [of c'] that c by simp
    have n: "n0 \<le> next_cid ?s1" using joined(6) Cons.prems(2) by simp
    obtain s1 where s1: "?r = Returned (Some cands) s1" "s1 = ?s1" using eq by simp
    have "readd (m # ms) cands s = readd ms cands s1" using s1(1) by simp
    then show ?thesis using Cons.IH [OF Cons.prems(1), of s1] h n s1(2) by simp
  next
    case created
    let ?s1 = "state_of ?r"
    have h: "heap ?s1 c' = heap s c'" if "c' < n0" for c'
      using created(7) [of c'] that Cons.prems(2) by simp
    have n: "n0 \<le> next_cid ?s1" using created(6) Cons.prems(2) by simp
    have cs: "\<forall>c \<in> set (cands @ [next_cid s]). n0 \<le> c" using Cons.prems by simp
    obtain s1 where s1: "?r = Returned (Some (cands @ [next_cid s])) s1" "s1 = ?s1"
      using created(3) by simp
    have "readd (m # ms) cands s = readd ms (cands @ [next_cid s]) s1" using s1(1) by simp
    then show ?thesis using Cons.IH [OF cs, of s1] h n s1(2) by simp
  qed
qed

lemma dissolved_facts:
  assumes "refs_ok s"
  shows "refs_ok (dissolved s)"
    and "c \<in> set (stale_clusters s) \<Longrightarrow>
           markers (heap (dissolved s) c) = [] \<and> c \<notin> set (clusters (dissolved s))"
    and "c \<in> set (clusters (dissolved s)) \<Longrightarrow>
           c \<in> set (clusters s) \<and> c < next_cid (dissolved s) \<and> heap (dissolved s) c = heap s c"
  using assms
  by (auto simp: dissolved_def dissolve_refs_ok dissolve_heap refs_ok_def list_all_iff)

lemma scenario_zoomed_eq:
  "scenario_zoomed =
     \<lparr>clusters = [0], leftMarkers = [], gridSize = 40, maxZoom = Some 18,
      styles = default_styles,
      hostMap = \<lparr>getZoom = 12, getMaxZoom = 18, getBounds = scenario_bounds,
                 latLngToLayerPoint = scenario_project, layers = {MarkerLayer m1}\<rparr>,
      heap = (\<lambda>_. Cluster_new scenario_map)
        (0 := \<lparr>center = Some \<lparr>lat = 0, lng = 0\<rparr>,
               markers = [\<lparr>isAdded = True, marker = m1\<rparr>, \<lparr>isAdded = False, marker = m2\<rparr>],
               clusterMarker = None, zoom = 10\<rparr>),
      next_cid = 1\<rparr>"
  by (simp add: scenario_zoomed_def scenario_two_eq scenario_map_def)

section \<open>The two engines\<close>

lemma L_digits_loop_eq: "L_digits_loop = digits_loop"
proof (intro ext)
  fix dv index
  show "L_digits_loop dv index = digits_loop dv index"
  proof (induction dv index rule: digits_loop.induct)
    case (1 dv index)
    then show ?case by (subst L_digits_loop.simps, subst digits_loop.simps) simp
  qed
qed

lemma L_reset_padding_eq: "L_reset_padding = reset_padding"
  unfolding L_reset_padding_def [abs_def] reset_padding_def [abs_def] by (rule refl)

lemma L_ClusterMarker_reset_eq: "L_ClusterMarker_reset = ClusterMarker_reset"
  unfolding L_ClusterMarker_reset_def [abs_def] ClusterMarker_reset_def [abs_def]
    L_digits_loop_eq L_reset_padding_eq
  by (rule refl)

lemma L_ClusterMarker_eq:
  "L_ClusterMarker_hide = ClusterMarker_hide" "L_ClusterMarker_show = ClusterMarker_show"
  "L_ClusterMarker_isHidden = ClusterMarker_isHidden"
  unfolding L_ClusterMarker_hide_def [abs_def] ClusterMarker_hide_def [abs_def]
    L_ClusterMarker_show_def [abs_def] ClusterMarker_show_def [abs_def]
    L_ClusterMarker_isHidden_def [abs_def] ClusterMarker_isHidden_def [abs_def]
  by (rule refl)+

lemma L_Cluster_getters_eq:
  "L_Cluster_new = Cluster_new" "L_Cluster_getMarkers = Cluster_getMarkers"
  "L_Cluster_getCenter = Cluster_getCenter" "L_Cluster_getCurrentZoom = Cluster_getCurrentZoom"
  "L_Cluster_getTotalMarkers = Cluster_getTotalMarkers"
  unfolding L_Cluster_new_def [abs_def] Cluster_new_def [abs_def]
    L_Cluster_getMarkers_def [abs_def] Cluster_getMarkers_def [abs_def]
    L_Cluster_getCenter_def [abs_def] Cluster_getCenter_def [abs_def]
    L_Cluster_getCurrentZoom_def [abs_def] Cluster_getCurrentZoom_def [abs_def]
    L_Cluster_getTotalMarkers_def [abs_def] Cluster_getTotalMarkers_def [abs_def]
  by (rule refl)+

text \<open>
  The badge of part 000 is built from the cluster; the other file's from the values its
  caller reads off the cluster.
\<close>

lemma L_ClusterMarker_initialize_eq:
  "L_ClusterMarker_initialize this sts s =
     ClusterMarker_initialize (center (heap s this)) (Cluster_getTotalMarkers this s) sts
       (gridSize s / 2)"
  unfolding L_ClusterMarker_initialize_def ClusterMarker_initialize_def
    L_ClusterMarker_reset_eq Cluster_getTotalMarkers_def
  by (rule refl)

lemma L_Cluster_isInBounds_eq: "L_Cluster_isInBounds = Cluster_isInBounds"
  unfolding L_Cluster_isInBounds_def [abs_def] Cluster_isInBounds_def [abs_def] by (rule refl)

lemma L_Cluster_addMarker_eq: "L_Cluster_addMarker = Cluster_addMarker"
  unfolding L_Cluster_addMarker_def [abs_def] Cluster_addMarker_def [abs_def] by (rule refl)

lemma L_removeMarker_scan_eq: "L_removeMarker_scan = removeMarker_scan"
proof (intro ext)
  fix m rs
  show "L_removeMarker_scan m rs = removeMarker_scan m rs" by (induction rs) simp_all
qed

lemma L_Cluster_removeMarker_eq: "L_Cluster_removeMarker = Cluster_removeMarker"
  unfolding L_Cluster_removeMarker_def [abs_def] Cluster_removeMarker_def [abs_def]
    L_removeMarker_scan_eq
  by (rule refl)

lemma L_removeAdded_eq: "L_removeAdded = removeAdded"
proof (intro ext)
  fix rs m
  show "L_removeAdded rs m = removeAdded rs m" by (induction rs arbitrary: m) simp_all
qed

lemma L_addAll_eq: "L_addAll = addAll"
proof (intro ext)
  fix rs m
  show "L_addAll rs m = addAll rs m" by (induction rs arbitrary: m) simp_all
qed

lemma L_Cluster_clearMarkers_eq: "L_Cluster_clearMarkers = Cluster_clearMarkers"
  unfolding L_Cluster_clearMarkers_def [abs_def] Cluster_clearMarkers_def [abs_def]
    L_removeAdded_eq
  by (rule refl)

lemma L_Cluster_redraw_eq: "L_Cluster_redraw = Cluster_redraw"
  unfolding L_Cluster_redraw_def [abs_def] Cluster_redraw_def [abs_def]
    L_Cluster_isInBounds_eq L_Cluster_getters_eq L_ClusterMarker_eq L_ClusterMarker_reset_eq
    L_ClusterMarker_initialize_eq L_removeAdded_eq L_addAll_eq
  by (rule refl)

lemma L_isMarkerInViewport_eq: "L_isMarkerInViewport = isMarkerInViewport"
  unfolding L_isMarkerInViewport_def [abs_def] isMarkerInViewport_def [abs_def] by (rule refl)

lemma L_addMarker_scan_eq: "L_addMarker_scan = addMarker_scan"
proof (intro ext)
  fix pos cs s
  show "L_addMarker_scan pos cs s = addMarker_scan pos cs s"
    by (induction cs) (simp_all add: L_Cluster_getters_eq Let_def split: option.split)
qed

lemma L_addMarker_eq: "L_addMarker = addMarker"
  unfolding L_addMarker_def [abs_def] addMarker_def [abs_def] L_isMarkerInViewport_eq
    L_addMarker_scan_eq L_Cluster_addMarker_eq L_Cluster_redraw_eq L_Cluster_getters_eq
  by (rule refl)

lemma L_removeMarker_loop_eq: "L_removeMarker_loop = removeMarker_loop"
proof (intro ext)
  fix m cs s
  show "L_removeMarker_loop m cs s = removeMarker_loop m cs s"
    by (induction cs arbitrary: s) (simp_all add: L_Cluster_remove_def Cluster_remove_def)
qed

lemma L_removeMarker_eq: "L_removeMarker = removeMarker"
  unfolding L_removeMarker_def [abs_def] removeMarker_def [abs_def] L_removeMarker_loop_eq
  by (rule refl)

lemma L_getClustersInViewport_eq: "L_getClustersInViewport = getClustersInViewport"
  unfolding L_getClustersInViewport_def [abs_def] getClustersInViewport_def [abs_def]
    L_Cluster_isInBounds_eq
  by (rule refl)

lemma L_redraw_loop_eq: "L_redraw_loop = redraw_loop"
proof (intro ext)
  fix cs s
  show "L_redraw_loop cs s = redraw_loop cs s"
    by (induction cs arbitrary: s) (simp_all add: L_Cluster_redraw_eq split: outcome.split)
qed

lemma L_redraw_eq: "L_redraw = redraw"
  unfolding L_redraw_def [abs_def] redraw_def [abs_def] L_getClustersInViewport_eq
    L_redraw_loop_eq
  by (rule refl)

lemma L_totals_eq: "L_getTotalMarkers = getTotalMarkers" "L_getTotalClusters = getTotalClusters"
  unfolding L_getTotalMarkers_def [abs_def] getTotalMarkers_def [abs_def] L_Cluster_getters_eq
    L_getTotalClusters_def [abs_def] getTotalClusters_def [abs_def]
  by (rule refl)+

lemma L_splice_cluster_eq: "L_splice_cluster = splice_cluster"
proof (intro ext)
  fix c cs
  show "L_splice_cluster c cs = splice_cluster c cs"
    by (induction c cs rule: splice_cluster.induct) simp_all
qed

lemma L_resetViewport_loop_eq: "L_resetViewport_loop = resetViewport_loop"
proof (intro ext)
  fix cs tmp s
  show "L_resetViewport_loop cs tmp s = resetViewport_loop cs tmp s"
    by (induction cs arbitrary: tmp s)
       (simp_all add: L_Cluster_getters_eq L_Cluster_clearMarkers_eq L_splice_cluster_eq Let_def)
qed

lemma L_addLeftMarkers_loop_eq: "L_addLeftMarkers_loop = addLeftMarkers_loop"
proof (intro ext)
  fix ms s
  show "L_addLeftMarkers_loop ms s = addLeftMarkers_loop ms s"
    by (induction ms arbitrary: s) (simp_all add: L_addMarker_eq split: outcome.split)
qed

lemma L_addLeftMarkers_eq: "L_addLeftMarkers = addLeftMarkers"
  unfolding L_addLeftMarkers_def [abs_def] addLeftMarkers_def [abs_def] L_addLeftMarkers_loop_eq
  by (rule refl)

lemma L_reAddMarkers_loop_eq: "L_reAddMarkers_loop = reAddMarkers_loop"
proof (intro ext)
  fix rs cl s
  show "L_reAddMarkers_loop rs cl s = reAddMarkers_loop rs cl s"
    by (induction rs arbitrary: cl s) (simp_all add: L_addMarker_eq split: outcome.split)
qed

lemma L_reAddMarkers_eq: "L_reAddMarkers = reAddMarkers"
  unfolding L_reAddMarkers_def [abs_def] reAddMarkers_def [abs_def] L_reAddMarkers_loop_eq
    L_addLeftMarkers_eq
  by (rule refl)

lemma L_resetViewport_eq: "L_resetViewport = resetViewport"
  unfolding L_resetViewport_def [abs_def] resetViewport_def [abs_def] L_getClustersInViewport_eq
    L_resetViewport_loop_eq L_reAddMarkers_eq L_redraw_eq
  by (rule refl)

lemma L_addMarkers_loop_eq: "L_addMarkers_loop = addMarkers_loop"
proof (intro ext)
  fix ms s
  show "L_addMarkers_loop ms s = addMarkers_loop ms s"
    by (induction ms arbitrary: s) (simp_all add: L_addMarker_eq split: outcome.split)
qed

lemma L_addMarkers_eq: "L_addMarkers = addMarkers"
  unfolding L_addMarkers_def [abs_def] addMarkers_def [abs_def] L_addMarkers_loop_eq L_redraw_eq
  by (rule refl)

lemma L_clearMarkers_eq: "L_clearMarkers = clearMarkers"
  unfolding L_clearMarkers_def [abs_def] clearMarkers_def [abs_def] L_Cluster_clearMarkers_eq
  by (rule refl)

lemma L_Marker_Clusterer_eq: "L_Marker_Clusterer = LeafClusterer"
  unfolding L_Marker_Clusterer_def [abs_def] LeafClusterer_def [abs_def] L_default_styles_def
    default_styles_def L_Cluster_getters_eq L_addMarkers_eq
  by (rule refl)

lemma L_step_eq: "L_step = step"
proof (intro ext)
  fix x s
  show "L_step x s = step x s"
    by (cases x)
       (simp_all add: L_addMarker_eq L_addMarkers_eq L_removeMarker_eq L_resetViewport_eq
          L_clearMarkers_eq)
qed

lemma L_exec_eq: "L_exec = exec"
  unfolding L_exec_def [abs_def] exec_def [abs_def] L_step_eq by (rule refl)

text \<open>
  Claim C10. The engine of \<^verbatim>\<open>src/leafclusterer.js\<close> (\<^verbatim>\<open>LeafClusterer\<close>, \<^verbatim>\<open>Cluster\<close>) and the
  engine of \<^verbatim>\<open>src/unnamed/part_000\<close> (\<^verbatim>\<open>L.Marker.Clusterer\<close>, \<^verbatim>\<open>L.Marker.Cluster\<close>) are
  equivalent. For every host map, initial markers and options the two constructors give
  the same outcome, and from every state every sequence \<open>ops\<close> of public operations and
  changes of the host map's view leaves the two engines in the same state: the same list
  of clusters with the same members, centers, zoom stamps and badges, the same pending
  list, and the same markers and badges on the map, hence the same display mode for every
  cluster. Every public operation taken alone has the same outcome in both files, an
  exception of the one being the same exception of the other, and so have the redraw of
  one cluster and its viewport test. What the two files do differently is outside the
  engine: the pane the badge's element goes to, its placement, and the wiring of its
  click.
\<close>

theorem engines_equivalent:
  "L_Marker_Clusterer m opt_markers opt_opts = LeafClusterer m opt_markers opt_opts \<and>
   L_exec ops s = exec ops s \<and>
   L_addMarker mk opt_isNodraw opt_isAdded opt_clusters opt_isNoCheck s =
     addMarker mk opt_isNodraw opt_isAdded opt_clusters opt_isNoCheck s \<and>
   L_addMarkers ms s = addMarkers ms s \<and>
   L_removeMarker mk s = removeMarker mk s \<and>
   L_resetViewport s = resetViewport s \<and>
   L_clearMarkers s = clearMarkers s \<and>
   L_redraw s = redraw s \<and>
   L_getClustersInViewport s = getClustersInViewport s \<and>
   L_getTotalMarkers s = getTotalMarkers s \<and>
   L_getTotalClusters s = getTotalClusters s \<and>
   L_Cluster_redraw c isForce s = Cluster_redraw c isForce s \<and>
   L_Cluster_isInBounds c b s = Cluster_isInBounds c b s"
  by (simp only: L_Marker_Clusterer_eq L_exec_eq L_addMarker_eq L_addMarkers_eq L_removeMarker_eq
        L_resetViewport_eq L_clearMarkers_eq L_redraw_eq L_getClustersInViewport_eq L_totals_eq
        L_Cluster_redraw_eq L_Cluster_isInBounds_eq simp_thms)

theorem engines_equivalent_witness:
  "L_Marker_Clusterer scenario_map (Some [m1, m2, m3, m4]) (Some scenario_opts) =
     LeafClusterer scenario_map (Some [m1, m2, m3, m4]) (Some scenario_opts) \<and>
   L_exec scenario_run scenario_clusterer = exec scenario_run scenario_clusterer \<and>
   L_removeMarker m1 scenario_one = removeMarker m1 scenario_one \<and>
   L_resetViewport scenario_zoomed = resetViewport scenario_zoomed"
  using engines_equivalent
    [of scenario_map "Some [m1, m2, m3, m4]" "Some scenario_opts" scenario_run
        scenario_clusterer]
    engines_equivalent [where s = scenario_one and mk = m1]
    engines_equivalent [where s = scenario_zoomed]
  by (simp only: simp_thms)

section \<open>Runs of calls with candidate arrays\<close>

lemma run_Nil [simp]: "run [] s = s"
  by (simp add: run_def)

lemma run_Cons [simp]: "run (c # calls) s = run calls (call_step c s)"
  by (simp add: run_def)

lemma run_Op: "run (map Op ops) s = exec ops s"
  by (induction ops arbitrary: s) simp_all

lemma called_Op: "called (map Op ops) acc = registered ops acc"
proof (induction ops arbitrary: acc)
  case Nil
  then show ?case by simp
next
  case (Cons x ops)
  then show ?case by (simp add: registered_Cons [of x ops acc])
qed

lemma live_candidates_Op: "live_candidates (map Op ops) s"
  by (induction ops arbitrary: s) simp_all

lemma call_step_refs_ok: "refs_ok s \<Longrightarrow> refs_ok (call_step c s)"
  by (cases c) (simp_all add: step_refs_ok addMarker_refs_ok)

lemma call_step_engine_ok:
  assumes "engine_ok s" and "live_candidates [c] s"
  shows "engine_ok (call_step c s)"
proof (cases c)
  case (Op x)
  then show ?thesis using assms(1) by (simp add: step_engine_ok)
next
  case (AddMarkerIn m nodraw added cl nocheck)
  then have "candidates_ok (Some cl) s"
    using assms(2) by (auto simp: candidates_ok_def list_all_iff)
  then show ?thesis using assms(1) AddMarkerIn by (simp add: addMarker_engine_ok)
qed

lemma call_step_slots:
  assumes "refs_ok s" and "live_candidates [c] s"
  shows "mset (slots (call_step c s)) = mset (called [c] (slots s))"
proof (cases c)
  case (Op x)
  then show ?thesis using assms(1) by (simp add: step_slots)
next
  case (AddMarkerIn m nodraw added cl nocheck)
  then have "candidates_ok (Some cl) s"
    using assms(2) by (auto simp: candidates_ok_def list_all_iff)
  then show ?thesis using assms(1) AddMarkerIn by (simp add: addMarker_slots)
qed

lemma called_mset:
  "mset acc = mset acc' \<Longrightarrow> mset (called calls acc) = mset (called calls acc')"
proof (induction calls arbitrary: acc acc')
  case Nil
  then show ?case by simp
next
  case (Cons c calls)
  show ?case
  proof (cases c)
    case (Op x)
    then show ?thesis using Cons.prems registered_mset [of acc acc' "[x]"]
      by (auto intro!: Cons.IH)
  next
    case (AddMarkerIn m nodraw added cl nocheck)
    then show ?thesis using Cons.prems by (auto intro!: Cons.IH)
  qed
qed

lemma called_Cons: "called (c # calls) acc = called calls (called [c] acc)"
  by (cases c) simp_all

lemma live_candidates_Cons:
  "live_candidates (c # calls) s = (live_candidates [c] s \<and> live_candidates calls (call_step c s))"
  by simp

lemma run_refs_ok: "refs_ok s \<Longrightarrow> refs_ok (run calls s)"
  by (induction calls arbitrary: s) (simp_all add: call_step_refs_ok)

lemma run_engine_ok: "engine_ok s \<Longrightarrow> live_candidates calls s \<Longrightarrow> engine_ok (run calls s)"
proof (induction calls arbitrary: s)
  case Nil
  then show ?case by simp
next
  case (Cons c calls)
  have l: "live_candidates [c] s" "live_candidates calls (call_step c s)"
    using Cons.prems(2) by (simp_all only: live_candidates_Cons [of c calls s])
  show ?case using Cons.IH [OF call_step_engine_ok [OF Cons.prems(1) l(1)] l(2)] by simp
qed

lemma run_slots:
  "refs_ok s \<Longrightarrow> live_candidates calls s \<Longrightarrow> mset (slots s) = mset acc \<Longrightarrow>
   mset (slots (run calls s)) = mset (called calls acc)"
proof (induction calls arbitrary: s acc)
  case Nil
  then show ?case by simp
next
  case (Cons c calls)
  have l: "live_candidates [c] s" "live_candidates calls (call_step c s)"
    using Cons.prems(2) by (simp_all only: live_candidates_Cons [of c calls s])
  have "mset (slots (call_step c s)) = mset (called [c] acc)"
    using call_step_slots [OF Cons.prems(1) l(1)] called_mset [OF Cons.prems(3), of "[c]"]
    by simp
  from Cons.IH [OF call_step_refs_ok [OF Cons.prems(1)] l(2) this] show ?case
    by (simp add: called_Cons [of c calls acc])
qed

section \<open>Badges stay attached\<close>

lemma redraw_badge_attached:
  "badge_attached c s \<Longrightarrow> badge_attached c (state_of (Cluster_redraw this f s))"
  by (auto simp: badge_attached_def Cluster_redraw_def Let_def addAll_layers removeAdded_layers
        split: option.splits outcome.splits if_splits)

lemma redraw_badges_attached:
  "badges_attached s \<Longrightarrow> badges_attached (state_of (Cluster_redraw this f s))"
  by (simp add: badges_attached_def list_all_iff redraw_badge_attached)

lemma redraw_loop_badges_attached:
  "badges_attached s \<Longrightarrow> badges_attached (state_of (redraw_loop cs s))"
proof (induction cs arbitrary: s)
  case Nil
  then show ?case by simp
next
  case (Cons c cs)
  note a = redraw_badges_attached [OF Cons.prems, of c True]
  show ?case
  proof (cases "Cluster_redraw c True s")
    case (Returned u s')
    then show ?thesis using a Cons.IH [of s'] by simp
  next
    case (Thrown e s')
    then show ?thesis using a by simp
  qed
qed

lemma clusterer_redraw_badges_attached:
  "badges_attached s \<Longrightarrow> badges_attached (state_of (redraw s))"
  by (simp add: redraw_def redraw_loop_badges_attached)

lemma Cluster_addMarker_badge_attached [simp]:
  "badge_attached c (Cluster_addMarker this r s) = badge_attached c s"
  by (simp add: badge_attached_def Cluster_addMarker_heap)

lemma addMarker_badges_attached:
  assumes "badges_attached s"
  shows "badges_attached (state_of (addMarker m nodraw added cl nocheck s))"
proof (cases "nocheck \<or> isMarkerInViewport m s")
  case False
  then show ?thesis using assms
    by (simp add: addMarker_deferred badges_attached_def badge_attached_def)
next
  case placed: True
  let ?ref = "\<lparr>isAdded = (case added of None \<Rightarrow> False | Some b \<Rightarrow> b), marker = m\<rparr>"
  show ?thesis
  proof (cases "addMarker_scan (latLngToLayerPoint (hostMap s) (getLatLng m))
                  (rev (case cl of None \<Rightarrow> clusters s | Some cs \<Rightarrow> cs)) s")
    case (Some c)
    have a: "badges_attached (Cluster_addMarker c ?ref s)"
      using assms by (simp add: badges_attached_def)
    show ?thesis
      using a redraw_badges_attached [OF a, of c False]
      by (auto simp: addMarker_joined [OF placed Some] split: outcome.splits)
  next
    case None
    let ?s1 = "Cluster_addMarker (next_cid s) ?ref
                 (s\<lparr>heap := (heap s)(next_cid s := Cluster_new (hostMap s)),
                    next_cid := Suc (next_cid s)\<rparr>)"
    have a: "badge_attached c ?s1" if "c \<in> set (clusters s) \<or> c = next_cid s" for c
      using assms that
      by simp (auto simp: badges_attached_def badge_attached_def list_all_iff Cluster_new_def)
    have b: "badge_attached c (state_of (Cluster_redraw (next_cid s) False ?s1))"
      if "c \<in> set (clusters s) \<or> c = next_cid s" for c
      using redraw_badge_attached [OF a [OF that]] .
    show ?thesis
      using a b
      by (simp add: addMarker_created [OF placed None] badges_attached_def list_all_iff
            badge_attached_def)
  qed
qed

lemma badges_attached_leftMarkers [simp]:
  "badges_attached (s\<lparr>leftMarkers := l\<rparr>) = badges_attached s"
  by (simp add: badges_attached_def badge_attached_def)

lemma fold_addMarker_badges_attached:
  "badges_attached s \<Longrightarrow>
   badges_attached (fold (\<lambda>m s. state_of (addMarker m nodraw added cl nocheck s)) ms s)"
  by (induction ms arbitrary: s) (simp_all add: addMarker_badges_attached)

lemma reattempt_pending_badges_attached:
  "badges_attached s \<Longrightarrow> badges_attached (reattempt_pending s)"
  by (simp add: reattempt_pending_def fold_addMarker_badges_attached)

lemma readd_badges_attached:
  "badges_attached s \<Longrightarrow> badges_attached (snd (readd ms cands s))"
proof (induction ms arbitrary: cands s)
  case Nil
  then show ?case by simp
next
  case (Cons m ms)
  note a = addMarker_badges_attached [OF Cons.prems, of m True "Some False" "Some cands" True]
  show ?case
  proof (cases "addMarker m True (Some False) (Some cands) True s")
    case (Returned cl' s')
    then show ?thesis using a Cons.IH [of s'] by (cases cl') simp_all
  next
    case (Thrown e s')
    then show ?thesis using a by simp
  qed
qed

lemma Cluster_clearMarkers_badge_layer:
  "c' \<noteq> c \<Longrightarrow>
   (BadgeLayer c' \<in> layers (hostMap (Cluster_clearMarkers c s))) =
     (BadgeLayer c' \<in> layers (hostMap s))"
  by (auto simp: Cluster_clearMarkers_def Let_def removeAdded_layers split: option.splits)

lemma fold_clearMarkers_badge_layer:
  "c' \<notin> set cs \<Longrightarrow>
   (BadgeLayer c' \<in> layers (hostMap (fold Cluster_clearMarkers cs s))) =
     (BadgeLayer c' \<in> layers (hostMap s))"
  by (induction cs arbitrary: s) (simp_all add: Cluster_clearMarkers_badge_layer)

lemma dissolve_badges_attached:
  "badges_attached s \<Longrightarrow> badges_attached (dissolve cs s)"
  by (auto simp: badges_attached_def badge_attached_def list_all_iff dissolve_def
        fold_clearMarkers_heap fold_clearMarkers_badge_layer)

lemma resetViewport_badges_attached:
  assumes "refs_ok s" and "badges_attached s"
  shows "badges_attached (state_of (resetViewport s))"
proof -
  have d: "distinct (clusters s)" using assms(1) by (simp add: refs_ok_def)
  have "badges_attached (dissolved s)"
    using assms(2) by (simp add: dissolved_def dissolve_badges_attached)
  then show ?thesis
    by (simp add: resetViewport_eq_redraw [OF d] clusterer_redraw_badges_attached
          reattempt_pending_badges_attached readd_badges_attached)
qed

lemma addMarkers_loop_badges_attached:
  "badges_attached s \<Longrightarrow> badges_attached (state_of (addMarkers_loop ms s))"
proof (induction ms arbitrary: s)
  case Nil
  then show ?case by simp
next
  case (Cons m ms)
  note a = addMarker_badges_attached [OF Cons.prems, of m True None None False]
  show ?case
  proof (cases "addMarker m True None None False s")
    case (Returned cl' s')
    then show ?thesis using a Cons.IH [of s'] by simp
  next
    case (Thrown e s')
    then show ?thesis using a by simp
  qed
qed

lemma addMarkers_badges_attached:
  assumes "badges_attached s"
  shows "badges_attached (state_of (addMarkers ms s))"
proof (cases "addMarkers_loop ms s")
  case (Returned u s')
  then show ?thesis
    using addMarkers_loop_badges_attached [OF assms, of ms]
    by (simp add: addMarkers_def clusterer_redraw_badges_attached)
next
  case (Thrown e s')
  then show ?thesis
    using addMarkers_loop_badges_attached [OF assms, of ms] by (simp add: addMarkers_def)
qed

lemma step_badges_attached:
  assumes "refs_ok s" and "badges_attached s"
  shows "badges_attached (step x s)"
proof (cases x)
  case (AddMarker m nodraw added nocheck)
  then show ?thesis using assms(2) by (simp add: addMarker_badges_attached)
next
  case (AddMarkers ms)
  then show ?thesis using assms(2) by (simp add: addMarkers_badges_attached)
next
  case (RemoveMarker m)
  then show ?thesis using assms(2) by simp
next
  case ResetViewport
  then show ?thesis using assms by (simp add: resetViewport_badges_attached)
next
  case ClearMarkers
  then show ?thesis by (simp add: badges_attached_def)
next
  case (HostView z mz b p)
  then show ?thesis using assms(2) by (simp add: badges_attached_def badge_attached_def)
qed

lemma call_step_badges_attached:
  "refs_ok s \<Longrightarrow> badges_attached s \<Longrightarrow> badges_attached (call_step c s)"
  by (cases c) (simp_all add: step_badges_attached addMarker_badges_attached)

lemma run_badges_attached:
  "refs_ok s \<Longrightarrow> badges_attached s \<Longrightarrow> badges_attached (run calls s)"
proof (induction calls arbitrary: s)
  case Nil
  then show ?case by simp
next
  case (Cons c calls)
  show ?case
    using Cons.IH [OF call_step_refs_ok [OF Cons.prems(1)]
                      call_step_badges_attached [OF Cons.prems]]
    by simp
qed

lemma LeafClusterer_badges_attached:
  "badges_attached (state_of (LeafClusterer m opt_markers opt_opts))"
proof (cases opt_markers)
  case None
  then show ?thesis
    by (auto simp: LeafClusterer_def Let_def badges_attached_def split: option.splits)
next
  case (Some ms)
  have "badges_attached (state_of (LeafClusterer m None opt_opts))"
    by (auto simp: LeafClusterer_def Let_def badges_attached_def split: option.splits)
  then show ?thesis by (simp add: Some LeafClusterer_markers addMarkers_badges_attached)
qed

text \<open>
  In a state reached from the constructor by calls whose candidate arrays are live, every
  cluster of \<^verbatim>\<open>clusters_\<close> has a badge that can be updated.
\<close>

lemma reachable_badge_usable:
  assumes "live_candidates calls (state_of (LeafClusterer m opt_markers opt_opts))"
    and "s = run calls (state_of (LeafClusterer m opt_markers opt_opts))"
    and "c \<in> set (clusters s)"
  shows "badge_usable c s"
proof -
  let ?s0 = "state_of (LeafClusterer m opt_markers opt_opts)"
  note ok = LeafClusterer_ok [of m opt_markers opt_opts]
  have e: "engine_ok s" unfolding assms(2) using ok assms(1) by (intro run_engine_ok) simp_all
  have a: "badges_attached s"
    unfolding assms(2) using ok LeafClusterer_badges_attached [of m opt_markers opt_opts]
    by (intro run_badges_attached) (simp_all add: engine_ok_refs)
  have sts: "styles s \<noteq> []" using e by (simp add: engine_ok_def)
  have c: "cluster_ok (styles s) (heap s c)" using engine_okD [OF e assms(3)] by simp
  have b: "badge_attached c s" using a assms(3) by (simp add: badges_attached_def list_all_iff)
  show ?thesis using sts c b
    by (auto simp: badge_usable_def cluster_ok_def badge_ok_def badge_attached_def
          split: option.splits)
qed

section \<open>Display mode of a redrawn cluster\<close>

lemma redraw_badge:
  assumes run: "isForce \<or> Cluster_isInBounds this None s"
    and n2: "2 \<le> length (markers (heap s this))"
    and z: "getZoom (hostMap s) < effective_maxZoom s"
    and st: "badge_usable this s"
  shows "returned (Cluster_redraw this isForce s) \<and>
         drawn_as_badge this (length (markers (heap s this))) (state_of (Cluster_redraw this isForce s)) \<and>
         list_all (\<lambda>r. isAdded r \<longrightarrow>
                     MarkerLayer (marker r) \<notin> layers (hostMap (state_of (Cluster_redraw this isForce s))))
           (markers (heap s this))"
proof (cases "clusterMarker (heap s this)")
  case None
  have n0: "length (markers (heap s this)) \<noteq> 0" using n2 by linarith
  have sts: "styles s \<noteq> []" using st None by (simp add: badge_usable_def)
  note i = initialize_returns [OF sts n0]
  show ?thesis using run n2 z None
    by (auto simp: Cluster_redraw_def Let_def effective_maxZoom_def Cluster_getTotalMarkers_def
          drawn_as_badge_def list_all_iff removeAdded_layers i split: option.splits)
next
  case (Some b)
  then obtain sts where sts: "cm_styles b = Some sts" "sts \<noteq> []"
    using st by (auto simp: badge_usable_def)
  have at: "BadgeLayer this \<in> layers (hostMap s)" using st Some by (simp add: badge_usable_def)
  have n0: "length (markers (heap s this)) \<noteq> 0" using n2 by linarith
  from reset_count_styled [OF sts n0] obtain b' where
    b': "ClusterMarker_reset \<lparr>opt_latLng = None, opt_count = length (markers (heap s this)),
           opt_styles = None, opt_padding = None\<rparr> b = Returned () b'"
        "cm_count b' = Some (length (markers (heap s this)))"
    by blast
  show ?thesis using run n2 z Some b' at
    by (auto simp: Cluster_redraw_def Let_def effective_maxZoom_def Cluster_getTotalMarkers_def
          drawn_as_badge_def list_all_iff removeAdded_layers ClusterMarker_isHidden_def
          ClusterMarker_show_def split: option.splits)
qed




section \<open>Partition invariant\<close>

text \<open>
  C1, as stated: in the run \<open>stale_calls\<close> from the constructor's state, \<open>m1\<close> and \<open>m2\<close> are
  registered once each. The first call returns the caller's array as \<open>[0]\<close>. After the map
  has zoomed, \<^verbatim>\<open>resetViewport\<close> dissolves cluster 0 and re-adds \<open>m1\<close> in the new cluster 1, but
  cluster 0 keeps its center; \<^verbatim>\<open>addMarker(m2, false, null, cs)\<close> finds it in the array and
  puts \<open>m2\<close> in it. So \<open>m2\<close> ends in the dissolved cluster 0, which is not in \<^verbatim>\<open>clusters_\<close>,
  and in no container: neither in a cluster of \<^verbatim>\<open>clusters_\<close> nor in the pending list.
\<close>

theorem stale_candidates_orphan:
  "value_of (addMarker m1 False None (Some []) False scenario_clusterer) = Some (Some [0]) \<and>
   called stale_calls [] = [m1, m2] \<and>
   distinct (called stale_calls []) \<and>
   clusters (run stale_calls scenario_clusterer) = [1] \<and>
   leftMarkers (run stale_calls scenario_clusterer) = [] \<and>
   members (run stale_calls scenario_clusterer) 1 = [m1] \<and>
   members (run stale_calls scenario_clusterer) 0 = [m2] \<and>
   m2 \<notin> set (slots (run stale_calls scenario_clusterer)) \<and>
   \<not> in_one_container (run stale_calls scenario_clusterer) m2"
proof -
  have 1: "value_of (addMarker m1 False None (Some []) False scenario_clusterer) = Some (Some [0])"
    by code_simp
  have 2: "called stale_calls [] = [m1, m2]"
    by (simp add: stale_calls_def)
  have 3: "distinct [m1, m2]"
    by (simp add: m1_def m2_def)
  have 4: "clusters (run stale_calls scenario_clusterer) = [1]"
    by code_simp
  have 5: "leftMarkers (run stale_calls scenario_clusterer) = []"
    by code_simp
  have 6: "members (run stale_calls scenario_clusterer) 1 = [m1]"
    by code_simp
  have 7: "members (run stale_calls scenario_clusterer) 0 = [m2]"
    by code_simp
  have 8: "m2 \<notin> set (slots (run stale_calls scenario_clusterer))"
    using 6 by (simp add: slots_def 4 5 m1_def m2_def)
  have 9: "\<not> in_one_container (run stale_calls scenario_clusterer) m2"
    using 8 by (simp add: in_one_container_def count_list_0_iff)
  show ?thesis using 1 2 3 4 5 6 7 8 9 by simp
qed

text \<open>
  C1, amended: in the state reached from the constructor by any run of \<^verbatim>\<open>addMarker\<close>,
  \<^verbatim>\<open>addMarkers\<close>, \<^verbatim>\<open>removeMarker\<close>, \<^verbatim>\<open>resetViewport\<close> and \<^verbatim>\<open>clearMarkers\<close> calls and of
  changes of the map's view, in which every candidate array passed to \<^verbatim>\<open>addMarker\<close> holds
  only clusters that are in \<^verbatim>\<open>clusters_\<close> when it is passed (a call without an array is
  such a call), the container slots (the members lists of the clusters of \<^verbatim>\<open>clusters_\<close>, a
  list without repetition, and the pending list) hold exactly the registered markers, each
  as often as it was registered. When every marker is registered at most once, every
  registered marker occupies exactly one slot: it is a member of exactly one cluster and
  not pending, or pending and a member of no cluster. A marker stays registered over
  \<^verbatim>\<open>removeMarker\<close>, which never changes the state (see C6).
\<close>

theorem partition_invariant:
  assumes "live_candidates calls (state_of (LeafClusterer m opt_markers opt_opts))"
    and "s = run calls (state_of (LeafClusterer m opt_markers opt_opts))"
  shows "distinct (clusters s) \<and>
         mset (slots s) = mset (called calls (initial_markers opt_markers)) \<and>
         (distinct (called calls (initial_markers opt_markers)) \<longrightarrow>
            (\<forall>mk \<in> set (called calls (initial_markers opt_markers)). in_one_container s mk))"
proof -
  let ?s0 = "state_of (LeafClusterer m opt_markers opt_opts)"
  note ok = LeafClusterer_ok [of m opt_markers opt_opts]
  have r0: "refs_ok ?s0" using ok by (simp add: engine_ok_refs)
  have r: "refs_ok s" unfolding assms(2) using r0 by (rule run_refs_ok)
  have sl: "mset (slots s) = mset (called calls (initial_markers opt_markers))"
    unfolding assms(2) using r0 assms(1) ok by (intro run_slots) simp_all
  have "in_one_container s mk"
    if "distinct (called calls (initial_markers opt_markers))"
      and "mk \<in> set (called calls (initial_markers opt_markers))" for mk
  proof -
    have "distinct (slots s)" using sl that(1) by (metis mset_eq_imp_distinct_iff)
    moreover have "mk \<in> set (slots s)" using sl that(2) by (metis set_mset_mset)
    ultimately show ?thesis by (rule distinct_slots_one_container)
  qed
  then show ?thesis using r sl by (simp add: refs_ok_def)
qed

theorem partition_invariant_witness:
  "live_candidates live_calls scenario_clusterer \<and>
   distinct (called live_calls (initial_markers None)) \<and>
   mset (slots (run live_calls scenario_clusterer)) = {#m1, m2, m3, m4#} \<and>
   in_one_container (run live_calls scenario_clusterer) m1 \<and>
   in_one_container (run live_calls scenario_clusterer) m2 \<and>
   in_one_container (run live_calls scenario_clusterer) m3 \<and>
   in_one_container (run live_calls scenario_clusterer) m4"
proof -
  let ?s1 = "call_step (AddMarkerIn m1 False None [] False) scenario_clusterer"
  let ?s2 = "call_step (AddMarkerIn m2 False None [0] False) ?s1"
  have c1: "clusters ?s1 = [0]"
    by code_simp
  have tl: "live_candidates
              (map Op [AddMarkers [m3, m4], RemoveMarker m1,
                       HostView 12 18 scenario_bounds scenario_project, ResetViewport]) ?s2"
    by (rule live_candidates_Op)
  have l: "live_candidates live_calls scenario_clusterer"
    unfolding live_calls_def using tl c1 by (simp del: call_step.simps)
  have r: "called live_calls (initial_markers None) = [m1, m2, m3, m4]"
    by (simp add: live_calls_def initial_markers_def)
  have d: "distinct [m1, m2, m3, m4]"
    by (simp add: m1_def m2_def m3_def m4_def)
  show ?thesis
    using partition_invariant
      [of live_calls scenario_map None "Some scenario_opts" "run live_calls scenario_clusterer"]
      l d
    by (simp add: r scenario_clusterer_def)
qed

section \<open>The final pass of \<^verbatim>\<open>resetViewport\<close>\<close>

text \<open>The pass over the viewport is what \<^verbatim>\<open>redraw_\<close> of the clusterer does.\<close>

lemma fold_redraw_thrown:
  "fold (\<lambda>c r. case r of Thrown e s' \<Rightarrow> Thrown e s' | Returned u s' \<Rightarrow> Cluster_redraw c True s')
     cs (Thrown e s) = Thrown e s"
  by (induction cs) simp_all

lemma fold_redraw_loop:
  "fold (\<lambda>c r. case r of Thrown e s' \<Rightarrow> Thrown e s' | Returned u s' \<Rightarrow> Cluster_redraw c True s')
     cs (Returned () s) = redraw_loop cs s"
proof (induction cs arbitrary: s)
  case Nil
  then show ?case by simp
next
  case (Cons c cs)
  then show ?case by (cases "Cluster_redraw c True s") (simp_all add: fold_redraw_thrown)
qed

lemma redraw_eq_viewport: "redraw s = redraw_viewport s"
  by (simp add: redraw_def redraw_viewport_def getClustersInViewport_def fold_redraw_loop)

lemma resetViewport_eq_protocol:
  "distinct (clusters s) \<Longrightarrow> resetViewport s = resetViewport_protocol s"
  by (simp add: resetViewport_eq_redraw resetViewport_protocol_def redraw_eq_viewport)

text \<open>
  C3: in a state with distinct, allocated cluster references, \<^verbatim>\<open>resetViewport\<close> is the
  protocol: its first loop collects, in order, the members of every in-viewport cluster
  whose remembered zoom differs from the map's, each with its placed flag false, and
  leaves those clusters cleared and out of the global list; the collected markers are
  re-added in reverse collection order by \<^verbatim>\<open>addMarker\<close> with the check bypassed and the
  redraw suppressed, against one candidate list that starts empty; then the pending markers
  are re-attempted and their list emptied; and at last every cluster of the global list
  that the viewport test then puts in the map's bounds is redrawn by force, in the order
  of the list (the pass \<open>redraw_viewport\<close>, with which \<open>resetViewport_protocol\<close> ends).
  The candidate list holds none of the surviving clusters, and the re-adding changes none
  of them. In a state of the engine whose clusters are non-empty and whose badges are
  styled, the call returns.
\<close>

theorem resetViewport_is_protocol:
  assumes "refs_ok s"
  shows "resetViewport s = resetViewport_protocol s \<and>
         resetViewport s =
           redraw_viewport
             (reattempt_pending (snd (readd (rev (map marker (collected s))) [] (dissolved s)))) \<and>
         resetViewport_loop (getClustersInViewport s) [] s = (collected s, dissolved s) \<and>
         list_all (\<lambda>r. \<not> isAdded r) (collected s) \<and>
         (\<forall>c \<in> set (stale_clusters s).
            markers (heap (dissolved s) c) = [] \<and> c \<notin> set (clusters (dissolved s))) \<and>
         (\<forall>c \<in> set (clusters (dissolved s)).
            c \<in> set (clusters s) \<and>
            c \<notin> set (fst (readd (rev (map marker (collected s))) [] (dissolved s))) \<and>
            heap (snd (readd (rev (map marker (collected s))) [] (dissolved s))) c = heap s c) \<and>
         leftMarkers (state_of (resetViewport s)) = [] \<and>
         (engine_ok s \<longrightarrow> returned (resetViewport s))"
proof -
  have d: "distinct (clusters s)" using assms by (simp add: refs_ok_def)
  note iso = readd_isolated
    [of "[]" "next_cid (dissolved s)" "dissolved s" "rev (map marker (collected s))"]
  have surv: "c \<in> set (clusters s) \<and>
              c \<notin> set (fst (readd (rev (map marker (collected s))) [] (dissolved s))) \<and>
              heap (snd (readd (rev (map marker (collected s))) [] (dissolved s))) c = heap s c"
    if "c \<in> set (clusters (dissolved s))" for c
  proof -
    note f = dissolved_facts(3) [OF assms that]
    then have lt: "c < next_cid (dissolved s)" by simp
    have "c \<notin> set (fst (readd (rev (map marker (collected s))) [] (dissolved s)))"
      using iso lt by fastforce
    then show ?thesis using f iso lt by simp
  qed
  have p: "resetViewport s = resetViewport_protocol s"
    using d by (rule resetViewport_eq_protocol)
  show ?thesis
    using p resetViewport_loop_eq [OF d]
      collect_not_added [of "stale_clusters s" s] dissolved_facts(2) [OF assms] surv
      resetViewport_inv [OF assms]
    by (simp add: collected_def resetViewport_protocol_def)
qed

theorem resetViewport_is_protocol_witness:
  "refs_ok scenario_zoomed \<and>
   stale_clusters scenario_zoomed = [0] \<and>
   collected scenario_zoomed =
     [\<lparr>isAdded = False, marker = m1\<rparr>, \<lparr>isAdded = False, marker = m2\<rparr>] \<and>
   resetViewport scenario_zoomed = resetViewport_protocol scenario_zoomed \<and>
   resetViewport_loop (getClustersInViewport scenario_zoomed) [] scenario_zoomed =
     (collected scenario_zoomed, dissolved scenario_zoomed) \<and>
   markers (heap (dissolved scenario_zoomed) 0) = [] \<and>
   0 \<notin> set (clusters (dissolved scenario_zoomed)) \<and>
   leftMarkers (state_of (resetViewport scenario_zoomed)) = [] \<and>
   clusters (state_of (resetViewport scenario_zoomed)) = [1] \<and>
   members (state_of (resetViewport scenario_zoomed)) 1 = [m2, m1] \<and>
   zoom (heap (state_of (resetViewport scenario_zoomed)) 1) = 12 \<and>
   drawn_as_badge 1 2 (state_of (resetViewport scenario_zoomed)) \<and>
   layers (hostMap (state_of (resetViewport scenario_zoomed))) = {BadgeLayer 1}"
proof -
  have r: "refs_ok scenario_zoomed" by (simp add: scenario_zoomed_eq refs_ok_def)
  have v: "getClustersInViewport scenario_zoomed = [0]"
    by (simp add: getClustersInViewport_def Cluster_isInBounds_def scenario_zoomed_eq
          scenario_bounds_def scenario_project_def Math_pow2_def Let_def)
  have st: "stale_clusters scenario_zoomed = [0]"
    by (simp add: stale_clusters_def stale_def v) (simp add: scenario_zoomed_eq)
  have co: "collected scenario_zoomed =
              [\<lparr>isAdded = False, marker = m1\<rparr>, \<lparr>isAdded = False, marker = m2\<rparr>]"
    by (simp add: collected_def collect_def st) (simp add: scenario_zoomed_eq)
  note t = resetViewport_is_protocol [OF r]
  have z: "0 \<in> set (stale_clusters scenario_zoomed)" by (simp add: st)
  have x: "markers (heap (dissolved scenario_zoomed) 0) = [] \<and>
           0 \<notin> set (clusters (dissolved scenario_zoomed))"
    using t z by blast
  have p: "resetViewport scenario_zoomed = resetViewport_protocol scenario_zoomed"
    using t by blast
  have e1: "clusters (state_of (resetViewport_protocol scenario_zoomed)) = [1]"
    by code_simp
  have e2: "members (state_of (resetViewport_protocol scenario_zoomed)) 1 = [m2, m1]"
    by code_simp
  have e3: "zoom (heap (state_of (resetViewport_protocol scenario_zoomed)) 1) = 12"
    by code_simp
  have e4: "drawn_as_badge 1 2 (state_of (resetViewport_protocol scenario_zoomed))"
    by code_simp
  have e5: "layers (hostMap (state_of (resetViewport_protocol scenario_zoomed))) = {BadgeLayer 1}"
    by code_simp
  have e: "clusters (state_of (resetViewport scenario_zoomed)) = [1] \<and>
           members (state_of (resetViewport scenario_zoomed)) 1 = [m2, m1] \<and>
           zoom (heap (state_of (resetViewport scenario_zoomed)) 1) = 12 \<and>
           drawn_as_badge 1 2 (state_of (resetViewport scenario_zoomed)) \<and>
           layers (hostMap (state_of (resetViewport scenario_zoomed))) = {BadgeLayer 1}"
    unfolding p using e1 e2 e3 e4 e5 by blast
  show ?thesis using t r st co x e by blast
qed

end
